theory Spec2Isabelle
  imports Main "HOL-Library.Word" "HOL-Library.Log_Nat"
begin

section \<open>Data model of the habit tracker (src/frontend/src/App.js)\<close>

text \<open>
  JavaScript strings are sequences of UTF-16 code units. The habit name is the only string
  the program inspects unit by unit (\<^verbatim>\<open>trim\<close>), so it is a list of 16-bit words. Identifiers,
  colours and day keys are only ever compared with \<^verbatim>\<open>===\<close>; they are HOL strings.

  A \<^verbatim>\<open>Date\<close> is an integer, the number of its instant. The functions \<^verbatim>\<open>startOfDay\<close>,
  \<^verbatim>\<open>format(d, 'yyyy-MM-dd')\<close>, \<^verbatim>\<open>subDays\<close>, \<^verbatim>\<open>isToday\<close> and \<^verbatim>\<open>differenceInDays\<close> belong to
  the date-fns library, which is not part of the repository, and what they compute depends
  on the time zone of the machine: every operation that calls one of them takes it as a
  parameter of the same name. The operations of the log receive \<^verbatim>\<open>startOfDay(date)\<close> as
  \<open>day\<close> and pass it to \<open>format\<close>. Clock readings (\<^verbatim>\<open>Date.now()\<close>, \<^verbatim>\<open>new Date()\<close>) are
  parameters too, in milliseconds since the epoch.
\<close>

type_synonym jsstring = "16 word list"

record habit =
  hid :: string          \<comment> \<open>field \<^verbatim>\<open>id\<close>\<close>
  name :: jsstring
  color :: string
  createdAt :: nat       \<comment> \<open>the instant whose ISO-8601 text the field holds\<close>

record completion =
  cid :: string          \<comment> \<open>field \<^verbatim>\<open>id\<close>\<close>
  habitId :: string
  date :: string
  completed :: bool

text \<open>The component state that the core operations read and write (the \<^verbatim>\<open>useState\<close> cells).\<close>

record app =
  habits :: "habit list"
  completions :: "completion list"
  newHabitName :: jsstring
  newHabitColor :: string

text \<open>
  The values an expression \<^verbatim>\<open>completion && completion.completed\<close> can take: \<^verbatim>\<open>undefined\<close>
  when \<^verbatim>\<open>find\<close> found nothing, the boolean field otherwise.
\<close>

datatype jsval = JSUndefined | JSBool bool

fun truthy :: "jsval \<Rightarrow> bool" where
  "truthy JSUndefined = False"
| "truthy (JSBool b) = b"

subsection \<open>Library functions of the language\<close>

text \<open>\<^verbatim>\<open>Number.prototype.toString\<close> on a non-negative integer: its decimal digits.\<close>

definition digit :: "nat \<Rightarrow> char" where
  "digit n = ''0123456789'' ! n"

fun toString :: "nat \<Rightarrow> string" where
  "toString n = (if n < 10 then [digit n] else toString (n div 10) @ [digit (n mod 10)])"

declare toString.simps [simp del]

text \<open>
  \<^verbatim>\<open>String.prototype.trim\<close> removes the code units of WhiteSpace and LineTerminator from
  both ends: TAB, LF, VT, FF, CR, SP, NBSP, U+1680, U+2000 to U+200A, LS, PS, U+202F, U+205F,
  U+3000 and the byte order mark.
\<close>

definition isWhiteSpace :: "16 word \<Rightarrow> bool" where
  "isWhiteSpace c \<longleftrightarrow>
     c = 0x9 \<or> c = 0xA \<or> c = 0xB \<or> c = 0xC \<or> c = 0xD \<or> c = 0x20 \<or> c = 0xA0 \<or>
     c = 0x1680 \<or> (0x2000 \<le> c \<and> c \<le> 0x200A) \<or> c = 0x2028 \<or> c = 0x2029 \<or>
     c = 0x202F \<or> c = 0x205F \<or> c = 0x3000 \<or> c = 0xFEFF"

definition trim :: "jsstring \<Rightarrow> jsstring" where
  "trim s = rev (dropWhile isWhiteSpace (rev (dropWhile isWhiteSpace s)))"

section \<open>Habit registry\<close>

text \<open>
  \<^verbatim>\<open>addHabit\<close> (lines 91 to 102). A string is truthy when it is not empty. The two clock
  readings of one call are \<open>now\<close> (\<^verbatim>\<open>Date.now()\<close>) and \<open>now'\<close> (\<^verbatim>\<open>new Date()\<close>).
\<close>

definition addHabit :: "nat \<Rightarrow> nat \<Rightarrow> app \<Rightarrow> app" where
  "addHabit now now' s =
     (if trim (newHabitName s) \<noteq> [] then
        let newHabit = \<lparr>hid = toString now, name = trim (newHabitName s),
                        color = newHabitColor s, createdAt = now'\<rparr>
        in s\<lparr>habits := habits s @ [newHabit], newHabitName := []\<rparr>
      else s)"

text \<open>\<^verbatim>\<open>deleteHabit\<close> (lines 105 to 108).\<close>

definition deleteHabit :: "string \<Rightarrow> app \<Rightarrow> app" where
  "deleteHabit habitId' s =
     s\<lparr>habits := filter (\<lambda>h. hid h \<noteq> habitId') (habits s),
       completions := filter (\<lambda>c. habitId c \<noteq> habitId') (completions s)\<rparr>"

section \<open>Completion log\<close>

text \<open>
  \<^verbatim>\<open>toggleHabitCompletion\<close> (lines 111 to 131); \<open>day\<close> is \<^verbatim>\<open>startOfDay(date)\<close> and \<open>now\<close> the
  reading of \<^verbatim>\<open>Date.now()\<close> for the identifier of a new record.
\<close>

definition toggleHabitCompletion :: "(int \<Rightarrow> string) \<Rightarrow> nat \<Rightarrow> string \<Rightarrow> int \<Rightarrow> app \<Rightarrow> app" where
  "toggleHabitCompletion format now habitId' day s =
     (let dateKey = format day;
          existingCompletion =
            find (\<lambda>c. habitId c = habitId' \<and> date c = dateKey) (completions s)
      in case existingCompletion of
           Some _ \<Rightarrow>
             s\<lparr>completions :=
                 map (\<lambda>c. if habitId c = habitId' \<and> date c = dateKey
                          then c\<lparr>completed := \<not> completed c\<rparr> else c) (completions s)\<rparr>
         | None \<Rightarrow>
             s\<lparr>completions := completions s @
                 [\<lparr>cid = toString now, habitId = habitId', date = dateKey, completed = True\<rparr>]\<rparr>)"

text \<open>\<^verbatim>\<open>isHabitCompleted\<close> (lines 134 to 138).\<close>

definition isHabitCompleted :: "(int \<Rightarrow> string) \<Rightarrow> string \<Rightarrow> int \<Rightarrow> completion list \<Rightarrow> jsval" where
  "isHabitCompleted format habitId' day cs =
     (let dateKey = format day;
          completion = find (\<lambda>c. habitId c = habitId' \<and> date c = dateKey) cs
      in case completion of None \<Rightarrow> JSUndefined | Some c \<Rightarrow> JSBool (completed c))"

section \<open>Streak engine\<close>

text \<open>
  \<^verbatim>\<open>calculateStreak\<close> (lines 21 to 42). The \<^verbatim>\<open>while (true)\<close> loop is a partial function on
  the loop variables \<open>currentDate\<close> and \<open>streak\<close>: the value \<open>None\<close> stands for a walk
  that never reaches \<^verbatim>\<open>break\<close>.

  The clock is read once for \<open>today\<close> (line 22) and again by every call of
  \<^verbatim>\<open>isToday\<close> (line 33), which compares its argument with the day of the clock at the time
  of the call. So the clock is a sequence of readings: reading 0 is the one of line 22,
  reading \<open>k + 1\<close> the one that \<^verbatim>\<open>isToday\<close> gets in pass \<open>k\<close> of the loop, and the parameter
  \<open>isToday now d\<close> is the answer of \<^verbatim>\<open>isToday(d)\<close> with the clock at \<open>now\<close>. The variable
  \<open>pass\<close> counts the passes, to pick the reading; the source has no such variable.
\<close>

partial_function (option) streak_loop ::
  "(int \<Rightarrow> string) \<Rightarrow> (int \<Rightarrow> int \<Rightarrow> int) \<Rightarrow> (int \<Rightarrow> int \<Rightarrow> bool) \<Rightarrow> (nat \<Rightarrow> int) \<Rightarrow>
   string \<Rightarrow> completion list \<Rightarrow> nat \<Rightarrow> int \<Rightarrow> nat \<Rightarrow> nat option" where
  "streak_loop format subDays isToday clock habitId' cs pass currentDate streak =
     (let dateKey = format currentDate;
          completion = find (\<lambda>c. habitId c = habitId' \<and> date c = dateKey) cs
      in if (case completion of None \<Rightarrow> False | Some c \<Rightarrow> completed c)
         then streak_loop format subDays isToday clock habitId' cs
                (pass + 1) (subDays currentDate 1) (streak + 1)
         else if streak = 0 \<and> isToday (clock (pass + 1)) currentDate
         then streak_loop format subDays isToday clock habitId' cs
                (pass + 1) (subDays currentDate 1) streak
         else Some streak)"

declare streak_loop.simps [code]

definition calculateStreak ::
  "(int \<Rightarrow> int) \<Rightarrow> (int \<Rightarrow> string) \<Rightarrow> (int \<Rightarrow> int \<Rightarrow> int) \<Rightarrow> (int \<Rightarrow> int \<Rightarrow> bool) \<Rightarrow>
   (nat \<Rightarrow> int) \<Rightarrow> habit \<Rightarrow> completion list \<Rightarrow> nat option" where
  "calculateStreak startOfDay format subDays isToday clock h cs =
     (let today = startOfDay (clock 0)
      in streak_loop format subDays isToday clock (hid h) cs 0 today 0)"

section \<open>Metrics engine\<close>

subsection \<open>The double-precision numbers of the rate computation\<close>

text \<open>
  \<^verbatim>\<open>getCompletionRate\<close> divides and multiplies JavaScript numbers, which are IEEE-754
  binary64 values. The values that occur are non-negative and far inside the normal range
  (between \<open>2\<^sup>-\<^sup>5\<^sup>3\<close> and \<open>2\<^sup>6\<^sup>0\<close>), so a number is a pair \<open>(m, e)\<close> of a mantissa and an
  exponent, standing for \<open>m \<cdot> 2\<^sup>e\<close>, and an operation rounds its exact result to a mantissa
  of 53 bits, to nearest, ties to even.
\<close>

type_synonym double = "nat \<times> int"

definition dval :: "double \<Rightarrow> rat" where
  "dval x = of_nat (fst x) * 2 powi (snd x)"

text \<open>The quotient \<open>a / b\<close> rounded to an integer, to nearest, ties to even.\<close>

definition rne :: "nat \<Rightarrow> nat \<Rightarrow> nat" where
  "rne a b =
     (let q = a div b; r = a mod b
      in if 2 * r < b then q else if b < 2 * r then q + 1 else if even q then q else q + 1)"

text \<open>
  \<open>round53 a b e\<close> is the binary64 number nearest to \<open>(a / b) \<cdot> 2\<^sup>e\<close>. With the bit lengths
  of \<open>a\<close> and \<open>b\<close>, the shift \<open>p0\<close> puts \<open>(a / b) \<cdot> 2\<^bsup>p0\<^esup>\<close> strictly between \<open>2\<^sup>5\<^sup>2\<close> and
  \<open>2\<^sup>5\<^sup>4\<close>; one step less where needed puts it in the binade of 53-bit mantissas.
\<close>

definition scaled_num :: "nat \<Rightarrow> int \<Rightarrow> nat" where
  "scaled_num a p = a * 2 ^ nat p"

definition scaled_den :: "nat \<Rightarrow> int \<Rightarrow> nat" where
  "scaled_den b p = b * 2 ^ nat (- p)"

definition round53 :: "nat \<Rightarrow> nat \<Rightarrow> int \<Rightarrow> double" where
  "round53 a b e =
     (if a = 0 then (0, 0)
      else let p0 = 53 + int (floorlog 2 b) - int (floorlog 2 a);
               p = (if 2 ^ 53 * scaled_den b p0 \<le> scaled_num a p0 then p0 - 1 else p0)
           in (rne (scaled_num a p) (scaled_den b p), e - p))"

definition js_num :: "nat \<Rightarrow> double" where
  "js_num n = (n, 0)"

definition js_div :: "double \<Rightarrow> double \<Rightarrow> double" where
  "js_div x y = round53 (fst x) (fst y) (snd x - snd y)"

definition js_mul :: "double \<Rightarrow> double \<Rightarrow> double" where
  "js_mul x y = round53 (fst x * fst y) 1 (snd x + snd y)"

text \<open>\<^verbatim>\<open>Math.round\<close>: the nearest integer, a tie going up.\<close>

definition Math_round :: "double \<Rightarrow> int" where
  "Math_round x =
     (if 0 \<le> snd x then int (fst x * 2 ^ nat (snd x))
      else int ((fst x + 2 ^ (nat (- snd x) - 1)) div 2 ^ nat (- snd x)))"

subsection \<open>Completion rate\<close>

text \<open>
  \<^verbatim>\<open>getCompletionRate\<close> (lines 148 to 152). \<^verbatim>\<open>differenceInDays\<close> belongs to date-fns and is a
  parameter, applied to the clock reading \<open>now\<close> and to the instant of creation. The two
  operands of the division are integers below \<open>2\<^sup>5\<^sup>3\<close> (an array has fewer than \<open>2\<^sup>3\<^sup>2\<close>
  elements, and the dates of the language span some \<open>2 \<cdot> 10\<^sup>8\<close> days), so they are numbers
  as they stand.
\<close>

definition daysElapsed :: "(nat \<Rightarrow> nat \<Rightarrow> int) \<Rightarrow> nat \<Rightarrow> habit \<Rightarrow> nat" where
  "daysElapsed differenceInDays now h = nat (max 1 (differenceInDays now (createdAt h) + 1))"

definition completedDays :: "habit \<Rightarrow> completion list \<Rightarrow> nat" where
  "completedDays h cs = length (filter (\<lambda>c. habitId c = hid h \<and> completed c) cs)"

definition getCompletionRate ::
  "(nat \<Rightarrow> nat \<Rightarrow> int) \<Rightarrow> nat \<Rightarrow> habit \<Rightarrow> completion list \<Rightarrow> int" where
  "getCompletionRate differenceInDays now h cs =
     Math_round (js_mul (js_div (js_num (completedDays h cs))
                                (js_num (daysElapsed differenceInDays now h)))
                        (js_num 100))"

text \<open>
  The rate as the specification words it, for comparison: the exact quotient, rounded
  (\<open>round x\<close> is \<open>\<lfloor>x + 1/2\<rfloor>\<close>).
\<close>

definition completionRate_spec ::
  "(nat \<Rightarrow> nat \<Rightarrow> int) \<Rightarrow> nat \<Rightarrow> habit \<Rightarrow> completion list \<Rightarrow> int" where
  "completionRate_spec differenceInDays now h cs =
     round (100 * of_nat (completedDays h cs) / of_nat (daysElapsed differenceInDays now h) :: rat)"

section \<open>Notions of the specification\<close>

text \<open>At most one record for each pair of a habit and a day key.\<close>

definition uniqueKeys :: "completion list \<Rightarrow> bool" where
  "uniqueKeys cs \<longleftrightarrow> distinct (map (\<lambda>c. (habitId c, date c)) cs)"





text \<open>The test the program makes on a day: the first record found is there and completed.\<close>

definition done_on :: "(int \<Rightarrow> string) \<Rightarrow> string \<Rightarrow> completion list \<Rightarrow> int \<Rightarrow> bool" where
  "done_on format h cs d = truthy (isHabitCompleted format h d cs)"

text \<open>
  The operation \<open>completionsFor\<close> of the specification (section 4.3): the records of one
  habit. The source has no function of that name; it filters the log in place where it needs
  them.
\<close>

definition completionsFor :: "string \<Rightarrow> completion list \<Rightarrow> completion list" where
  "completionsFor habitId' cs = filter (\<lambda>c. habitId c = habitId') cs"

section \<open>Data of the examples\<close>

text \<open>
  A formatter for the examples: the key of a day is its day number in decimal, with a sign.
  Like the calendar format, it gives different days different keys.
\<close>

definition dayKey :: "int \<Rightarrow> string" where
  "dayKey d = (if d < 0 then CHR ''-'' # toString (nat (- d)) else toString (nat d))"

text \<open>
  An instance of \<^verbatim>\<open>differenceInDays\<close> for a zone without clock changes: the full days
  between two instants, the sign that of the difference.
\<close>

definition fullDays :: "nat \<Rightarrow> nat \<Rightarrow> int" where
  "fullDays a b = (if b \<le> a then int ((a - b) div 86400000) else - int ((b - a) div 86400000))"

text \<open>
  An instance of the calendar functions for a zone without clock changes, dates in
  milliseconds: a day is 86400000 of them, and the key of a date is the key of its day
  number.
\<close>

definition utcStartOfDay :: "int \<Rightarrow> int" where
  "utcStartOfDay t = t - t mod 86400000"

definition utcFormat :: "int \<Rightarrow> string" where
  "utcFormat t = dayKey (t div 86400000)"

definition utcSubDays :: "int \<Rightarrow> int \<Rightarrow> int" where
  "utcSubDays t n = t - n * 86400000"

definition utcIsToday :: "int \<Rightarrow> int \<Rightarrow> bool" where
  "utcIsToday now t \<longleftrightarrow> t div 86400000 = now div 86400000"

text \<open>
  Two clocks on day 100: one that reads two in the afternoon at every reading, and one that
  reads a second before midnight for \<open>today\<close> and is past midnight, on day 101, by the time
  \<^verbatim>\<open>isToday\<close> is called.
\<close>

definition afternoon :: "nat \<Rightarrow> int" where
  "afternoon k = 8690400000"

definition overMidnight :: "nat \<Rightarrow> int" where
  "overMidnight k = (if k = 0 then 8726399000 else 8726401000)"

text \<open>
  The zone Pacific/Apia left out the day 2011-12-30. Local midnight of 2011-12-31 is the
  instant 1325239200000, day 15339 of the local calendar from then on (14 hours ahead of
  the epoch's zone), and \<^verbatim>\<open>subDays\<close>, which sets the day of the month one back, gives that
  same midnight again, the day before being absent. The instance says no more of that zone
  than the example needs: every other date goes back 24 hours.
\<close>

definition apiaStartOfDay :: "int \<Rightarrow> int" where
  "apiaStartOfDay t = t - (t + 50400000) mod 86400000"

definition apiaFormat :: "int \<Rightarrow> string" where
  "apiaFormat t = dayKey ((t + 50400000) div 86400000)"

definition apiaSubDays :: "int \<Rightarrow> int \<Rightarrow> int" where
  "apiaSubDays t n = (if t = 1325239200000 \<and> n = 1 then t else t - n * 86400000)"

definition apiaIsToday :: "int \<Rightarrow> int \<Rightarrow> bool" where
  "apiaIsToday now t \<longleftrightarrow> (t + 50400000) div 86400000 = (now + 50400000) div 86400000"

text \<open>Nine in the morning of 2011-12-31 in that zone, at every reading.\<close>

definition apiaMorning :: "nat \<Rightarrow> int" where
  "apiaMorning k = 1325271600000"

definition run :: habit where
  "run = \<lparr>hid = ''1700000000000'', name = [0x52, 0x75, 0x6E], color = ''#3B82F6'', createdAt = 0\<rparr>"

definition entry :: "string \<Rightarrow> int \<Rightarrow> bool \<Rightarrow> completion" where
  "entry h d b = \<lparr>cid = toString (nat d), habitId = h, date = dayKey d, completed = b\<rparr>"

text \<open>
  With day 100 for today: the five days up to today completed, and the four days up to
  yesterday completed with today open; each log also holds a record of another habit.
\<close>

definition five_days :: "completion list" where
  "five_days =
     [entry (hid run) 96 True, entry (hid run) 97 True, entry ''1700000000001'' 95 True,
      entry (hid run) 98 True, entry (hid run) 99 True, entry (hid run) 100 True]"

definition four_days :: "completion list" where
  "four_days =
     [entry (hid run) 96 True, entry (hid run) 97 True, entry ''1700000000001'' 100 True,
      entry (hid run) 98 True, entry (hid run) 99 True, entry (hid run) 100 False]"

text \<open>The first \<open>n\<close> days from day 0 on, each completed.\<close>

definition days_done :: "nat \<Rightarrow> completion list" where
  "days_done n = map (\<lambda>i. entry (hid run) (int i) True) [0..<n]"


section \<open>Facts about the library functions\<close>

lemma find_SomeD: "find P xs = Some x \<Longrightarrow> x \<in> set xs \<and> P x"
  by (induction xs) (auto split: if_splits)

lemma find_filter_conj: "find (\<lambda>x. P x \<and> Q x) xs = find Q (filter P xs)"
  by (induction xs) auto



subsection \<open>The decimal text of a number determines the number\<close>

lemma digit_inj: "a < 10 \<Longrightarrow> b < 10 \<Longrightarrow> digit a = digit b \<Longrightarrow> a = b"
proof -
  assume a: "a < 10" and b: "b < 10" and e: "digit a = digit b"
  have "distinct ''0123456789''" by simp
  moreover have "a < length ''0123456789''" "b < length ''0123456789''" using a b by simp_all
  ultimately show "a = b" using e unfolding digit_def by (simp only: nth_eq_iff_index_eq)
qed


lemma toString_nonempty: "toString n \<noteq> []"
  by (subst toString.simps) simp

lemma toString_last: "last (toString n) = digit (n mod 10)"
  by (subst toString.simps) simp

lemma toString_butlast: "10 \<le> n \<Longrightarrow> butlast (toString n) = toString (n div 10)"
  by (subst toString.simps) (simp add: butlast_append)

lemma toString_small: "n < 10 \<Longrightarrow> toString n = [digit n]"
  by (subst toString.simps) simp

lemma toString_length: "10 \<le> n \<Longrightarrow> 2 \<le> length (toString n)"
proof -
  assume "10 \<le> n"
  then have "toString n = toString (n div 10) @ [digit (n mod 10)]"
    by (subst toString.simps) simp
  moreover have "1 \<le> length (toString (n div 10))"
    using toString_nonempty[of "n div 10"] by (cases "toString (n div 10)") auto
  ultimately show ?thesis by simp
qed

lemma toString_inj: "toString n = toString m \<Longrightarrow> n = m"
proof (induction n arbitrary: m rule: toString.induct)
  case (1 n)
  have l: "n mod 10 = m mod 10"
    using toString_last[of n] toString_last[of m] "1.prems" by (auto intro: digit_inj)
  show ?case
  proof (cases "n < 10")
    case True
    then have "toString m = [digit n]" using "1.prems" toString_small[of n] by simp
    then have "length (toString m) = 1" by simp
    then have "m < 10" using toString_length[of m] by (cases "m < 10") auto
    then show ?thesis using l True by simp
  next
    case False
    then have "2 \<le> length (toString m)" using "1.prems" toString_length[of n] by simp
    then have m: "\<not> m < 10" using toString_small[of m] by (cases "m < 10") auto
    have "toString (n div 10) = toString (m div 10)"
      using False m "1.prems" toString_butlast[of n] toString_butlast[of m] by simp
    then have "n div 10 = m div 10" using "1.IH" False by simp
    then show ?thesis using l by (metis div_mult_mod_eq)
  qed
qed



lemmas eval_examples =
  entry_def run_def dayKey_def toString.simps digit_def five_days_def four_days_def
  utcStartOfDay_def utcFormat_def utcSubDays_def utcIsToday_def afternoon_def overMidnight_def
  apiaStartOfDay_def apiaFormat_def apiaSubDays_def apiaIsToday_def apiaMorning_def


section \<open>The streak walk\<close>



lemma streak_loop_unfold:
  "streak_loop format subDays isToday clock h cs k d s =
     (if done_on format h cs d
      then streak_loop format subDays isToday clock h cs (k + 1) (subDays d 1) (s + 1)
      else if s = 0 \<and> isToday (clock (k + 1)) d
      then streak_loop format subDays isToday clock h cs (k + 1) (subDays d 1) s
      else Some s)"
  by (subst streak_loop.simps)
     (simp add: done_on_def isHabitCompleted_def Let_def split: option.splits)




subsection \<open>Only finitely many passes find a completed record\<close>

lemma done_on_find:
  "done_on format h cs d \<longleftrightarrow>
     (\<exists>c. find (\<lambda>c. habitId c = h \<and> date c = format d) cs = Some c \<and> completed c)"
  by (simp add: done_on_def isHabitCompleted_def Let_def split: option.splits)








subsection \<open>The calendar of the examples\<close>





subsection \<open>Termination\<close>




subsection \<open>The test and the records of the log\<close>





subsection \<open>The walk reads the records of its own habit only\<close>

lemma done_on_filter:
  "done_on format h cs d = done_on format h (filter (\<lambda>c. habitId c = h) cs) d"
  by (simp add: done_on_find find_filter_conj[symmetric] conj_commute)

lemma streak_loop_transfer:
  assumes "streak_loop format subDays isToday clock h cs k d s = Some n"
  shows "\<forall>cs'. (\<forall>x. done_on format h cs x = done_on format h cs' x) \<longrightarrow>
         streak_loop format subDays isToday clock h cs' k d s = Some n"
proof (rule streak_loop.raw_induct[where P = "\<lambda>format subDays isToday clock h cs k d s n.
         \<forall>cs'. (\<forall>x. done_on format h cs x = done_on format h cs' x) \<longrightarrow>
         streak_loop format subDays isToday clock h cs' k d s = Some n", OF _ assms])
  fix sl :: "(int \<Rightarrow> string) \<Rightarrow> (int \<Rightarrow> int \<Rightarrow> int) \<Rightarrow> (int \<Rightarrow> int \<Rightarrow> bool) \<Rightarrow> (nat \<Rightarrow> int) \<Rightarrow>
     string \<Rightarrow> completion list \<Rightarrow> nat \<Rightarrow> int \<Rightarrow> nat \<Rightarrow> nat option"
  fix format subDays isToday clock h cs k d s n
  assume IH: "\<And>format subDays isToday clock h cs k d s n.
     sl format subDays isToday clock h cs k d s = Some n \<Longrightarrow>
     \<forall>cs'. (\<forall>x. done_on format h cs x = done_on format h cs' x) \<longrightarrow>
         streak_loop format subDays isToday clock h cs' k d s = Some n"
  assume body: "(let dateKey = format d;
          completion = find (\<lambda>c. habitId c = h \<and> date c = dateKey) cs
      in if case completion of None \<Rightarrow> False | Some c \<Rightarrow> completed c
         then sl format subDays isToday clock h cs (k + 1) (subDays d 1) (s + 1)
         else if s = 0 \<and> isToday (clock (k + 1)) d
              then sl format subDays isToday clock h cs (k + 1) (subDays d 1) s
              else Some s) = Some n"
  have body': "(if done_on format h cs d
      then sl format subDays isToday clock h cs (k + 1) (subDays d 1) (s + 1)
      else if s = 0 \<and> isToday (clock (k + 1)) d
      then sl format subDays isToday clock h cs (k + 1) (subDays d 1) s else Some s) = Some n"
  proof -
    have "(case find (\<lambda>c. habitId c = h \<and> date c = format d) cs of
             None \<Rightarrow> False | Some c \<Rightarrow> completed c) = done_on format h cs d"
      by (simp add: done_on_def isHabitCompleted_def Let_def split: option.splits)
    then show ?thesis using body unfolding Let_def by (simp only:)
  qed
  show "\<forall>cs'. (\<forall>x. done_on format h cs x = done_on format h cs' x) \<longrightarrow>
         streak_loop format subDays isToday clock h cs' k d s = Some n"
  proof (intro allI impI)
    fix cs' assume eq: "\<forall>x. done_on format h cs x = done_on format h cs' x"
    consider (a) "done_on format h cs d"
      | (b) "\<not> done_on format h cs d" "s = 0 \<and> isToday (clock (k + 1)) d"
      | (c) "\<not> done_on format h cs d" "\<not> (s = 0 \<and> isToday (clock (k + 1)) d)" by blast
    then show "streak_loop format subDays isToday clock h cs' k d s = Some n"
    proof cases
      case a
      then have "sl format subDays isToday clock h cs (k + 1) (subDays d 1) (s + 1) = Some n"
        using body' by simp
      then have "streak_loop format subDays isToday clock h cs' (k + 1) (subDays d 1) (s + 1) = Some n"
        using IH eq by blast
      then show ?thesis using a eq by (subst streak_loop_unfold) simp
    next
      case b
      then have "sl format subDays isToday clock h cs (k + 1) (subDays d 1) s = Some n"
        using body' by simp
      then have "streak_loop format subDays isToday clock h cs' (k + 1) (subDays d 1) s = Some n"
        using IH eq by blast
      then show ?thesis using b eq by (subst streak_loop_unfold) simp
    next
      case c
      then have "s = n" using body' by (auto split: if_splits)
      then show ?thesis using c eq by (subst streak_loop_unfold) auto
    qed
  qed
qed

lemma streak_loop_cong:
  assumes "\<forall>x. done_on format h cs x = done_on format h cs' x"
  shows "streak_loop format subDays isToday clock h cs k d s =
         streak_loop format subDays isToday clock h cs' k d s"
proof (cases "streak_loop format subDays isToday clock h cs k d s")
  case None
  show ?thesis
  proof (cases "streak_loop format subDays isToday clock h cs' k d s")
    case None
    with \<open>streak_loop format subDays isToday clock h cs k d s = None\<close> show ?thesis by simp
  next
    case (Some n)
    from streak_loop_transfer[OF Some] assms
    have "streak_loop format subDays isToday clock h cs k d s = Some n" by simp
    then show ?thesis using Some by simp
  qed
next
  case (Some n)
  from streak_loop_transfer[OF Some] assms
  have "streak_loop format subDays isToday clock h cs' k d s = Some n" by blast
  then show ?thesis using Some by simp
qed

text \<open>
  Claim C9. Two logs that hold the same records of a habit, in the same order, give the
  habit the same streak, whatever records of other habits they hold; this needs nothing of
  the calendar functions or the clock, and covers a walk that does not end.
\<close>

theorem calculateStreak_other_habits:
  assumes "filter (\<lambda>c. habitId c = hid h) cs = filter (\<lambda>c. habitId c = hid h) cs'"
  shows "calculateStreak startOfDay format subDays isToday clock h cs =
         calculateStreak startOfDay format subDays isToday clock h cs'"
proof -
  have "\<forall>x. done_on format (hid h) cs x = done_on format (hid h) cs' x"
    using assms done_on_filter[of format "hid h" cs] done_on_filter[of format "hid h" cs']
    by simp
  then show ?thesis unfolding calculateStreak_def Let_def by (rule streak_loop_cong)
qed

theorem calculateStreak_other_habits_witness:
  "filter (\<lambda>c. habitId c = hid run) five_days =
     filter (\<lambda>c. habitId c = hid run)
       (entry ''1700000000002'' 100 False # five_days @ [entry ''1700000000003'' 94 True]) \<and>
   calculateStreak utcStartOfDay utcFormat utcSubDays utcIsToday afternoon run five_days =
     calculateStreak utcStartOfDay utcFormat utcSubDays utcIsToday afternoon run
       (entry ''1700000000002'' 100 False # five_days @ [entry ''1700000000003'' 94 True])"
proof -
  have e: "filter (\<lambda>c. habitId c = hid run) five_days =
     filter (\<lambda>c. habitId c = hid run)
       (entry ''1700000000002'' 100 False # five_days @ [entry ''1700000000003'' 94 True])"
    by (simp add: entry_def run_def five_days_def)
  show ?thesis
    using calculateStreak_other_habits[OF e, of utcStartOfDay utcFormat utcSubDays utcIsToday afternoon] e
    by (intro conjI)
qed

section \<open>The completion log\<close>

subsection \<open>Flipping the records of a pair\<close>

lemma find_flip_same:
  "find (\<lambda>c. habitId c = h \<and> date c = k)
     (map (\<lambda>c. if habitId c = h \<and> date c = k then c\<lparr>completed := \<not> completed c\<rparr> else c) cs) =
   map_option (\<lambda>c. c\<lparr>completed := \<not> completed c\<rparr>) (find (\<lambda>c. habitId c = h \<and> date c = k) cs)"
  by (induction cs) auto

lemma find_flip_key:
  "find (\<lambda>c. habitId c = h' \<and> date c = k')
     (map (\<lambda>c. if habitId c = h \<and> date c = k then c\<lparr>completed := \<not> completed c\<rparr> else c) cs) =
   map_option (\<lambda>c. if habitId c = h \<and> date c = k then c\<lparr>completed := \<not> completed c\<rparr> else c)
     (find (\<lambda>c. habitId c = h' \<and> date c = k') cs)"
  by (induction cs) auto

lemma flip_flip:
  "map (\<lambda>c. if habitId c = h \<and> date c = k then c\<lparr>completed := \<not> completed c\<rparr> else c)
     (map (\<lambda>c. if habitId c = h \<and> date c = k then c\<lparr>completed := \<not> completed c\<rparr> else c) cs) = cs"
  by (induction cs) auto

lemma flip_keys:
  "map (\<lambda>c. (habitId c, date c))
     (map (\<lambda>c. if habitId c = h \<and> date c = k then c\<lparr>completed := \<not> completed c\<rparr> else c) cs) =
   map (\<lambda>c. (habitId c, date c)) cs"
  by (induction cs) auto

lemma flip_others:
  "filter (\<lambda>c. \<not> (habitId c = h \<and> date c = k))
     (map (\<lambda>c. if habitId c = h \<and> date c = k then c\<lparr>completed := \<not> completed c\<rparr> else c) cs) =
   filter (\<lambda>c. \<not> (habitId c = h \<and> date c = k)) cs"
  by (induction cs) auto

lemma find_append_new:
  "find P xs = None \<Longrightarrow> find P (xs @ [x]) = (if P x then Some x else None)"
  by (induction xs) (auto split: if_splits)

lemma find_append_old:
  "find P xs = Some y \<Longrightarrow> find P (xs @ zs) = Some y"
  by (induction xs) (auto split: if_splits)

lemma toggle_absent:
  "find (\<lambda>c. habitId c = h \<and> date c = format d) (completions s) = None \<Longrightarrow>
   toggleHabitCompletion format now h d s =
     s\<lparr>completions := completions s @
         [\<lparr>cid = toString now, habitId = h, date = format d, completed = True\<rparr>]\<rparr>"
  by (simp add: toggleHabitCompletion_def Let_def)

lemma toggle_present:
  "find (\<lambda>c. habitId c = h \<and> date c = format d) (completions s) = Some c \<Longrightarrow>
   toggleHabitCompletion format now h d s =
     s\<lparr>completions :=
         map (\<lambda>c. if habitId c = h \<and> date c = format d
                  then c\<lparr>completed := \<not> completed c\<rparr> else c) (completions s)\<rparr>"
  by (simp add: toggleHabitCompletion_def Let_def)

lemma truthy_isHabitCompleted:
  "truthy (isHabitCompleted format h d cs) \<longleftrightarrow>
     (case find (\<lambda>c. habitId c = h \<and> date c = format d) cs of
        None \<Rightarrow> False | Some c \<Rightarrow> completed c)"
  by (simp add: isHabitCompleted_def Let_def split: option.splits)

text \<open>What two toggles in a row leave behind.\<close>

lemma toggle_twice:
  "completions (toggleHabitCompletion format now' h d (toggleHabitCompletion format now h d s)) =
     (case find (\<lambda>c. habitId c = h \<and> date c = format d) (completions s) of
        Some _ \<Rightarrow> completions s
      | None \<Rightarrow> completions s @
          [\<lparr>cid = toString now, habitId = h, date = format d, completed = False\<rparr>])"
proof (cases "find (\<lambda>c. habitId c = h \<and> date c = format d) (completions s)")
  case None
  let ?r = "\<lparr>cid = toString now, habitId = h, date = format d, completed = True\<rparr>"
  let ?s1 = "toggleHabitCompletion format now h d s"
  have s1: "completions ?s1 = completions s @ [?r]" using None by (simp add: toggle_absent)
  have "find (\<lambda>c. habitId c = h \<and> date c = format d) (completions ?s1) = Some ?r"
    using None by (simp add: s1 find_append_new)
  then have "completions (toggleHabitCompletion format now' h d ?s1) =
      map (\<lambda>c. if habitId c = h \<and> date c = format d
                then c\<lparr>completed := \<not> completed c\<rparr> else c) (completions ?s1)"
    by (simp add: toggle_present)
  moreover have "map (\<lambda>c. if habitId c = h \<and> date c = format d
                then c\<lparr>completed := \<not> completed c\<rparr> else c) (completions s) = completions s"
    using None by (intro map_idI) (auto simp: find_None_iff)
  ultimately show ?thesis using None by (simp add: s1)
next
  case (Some c)
  let ?s1 = "toggleHabitCompletion format now h d s"
  have s1: "completions ?s1 = map (\<lambda>c. if habitId c = h \<and> date c = format d
                then c\<lparr>completed := \<not> completed c\<rparr> else c) (completions s)"
    using Some by (simp add: toggle_present)
  have "find (\<lambda>c. habitId c = h \<and> date c = format d) (completions ?s1) =
      Some (c\<lparr>completed := \<not> completed c\<rparr>)"
    using Some by (simp add: s1 find_flip_same)
  then have s2: "completions (toggleHabitCompletion format now' h d ?s1) =
      map (\<lambda>c. if habitId c = h \<and> date c = format d
                then c\<lparr>completed := \<not> completed c\<rparr> else c) (completions ?s1)"
    by (simp add: toggle_present)
  have "completions (toggleHabitCompletion format now' h d ?s1) = completions s"
    unfolding s2 s1 by (rule flip_flip)
  then show ?thesis using Some by simp
qed

lemma toggle_twice_truthy:
  "truthy (isHabitCompleted format h' d'
       (completions (toggleHabitCompletion format now' h d
          (toggleHabitCompletion format now h d s)))) =
   truthy (isHabitCompleted format h' d' (completions s))"
proof -
  let ?K = "\<lambda>c. habitId c = h \<and> date c = format d"
  let ?K' = "\<lambda>c. habitId c = h' \<and> date c = format d'"
  let ?s2 = "toggleHabitCompletion format now' h d (toggleHabitCompletion format now h d s)"
  show ?thesis
  proof (cases "find ?K (completions s)")
    case (Some c)
    then show ?thesis by (simp add: toggle_twice)
  next
    case None
    let ?r = "\<lparr>cid = toString now, habitId = h, date = format d, completed = False\<rparr>"
    have cs: "completions ?s2 = completions s @ [?r]" using None by (simp add: toggle_twice)
    show ?thesis
    proof (cases "find ?K' (completions s)")
      case (Some c')
      then show ?thesis
        by (simp add: cs truthy_isHabitCompleted find_append_old)
    next
      case N: None
      then show ?thesis
        by (simp add: cs truthy_isHabitCompleted find_append_new)
    qed
  qed
qed

lemma toggle_twice_completedDays:
  "completedDays hb (completions (toggleHabitCompletion format now' h d
       (toggleHabitCompletion format now h d s))) =
   completedDays hb (completions s)"
  by (simp add: completedDays_def toggle_twice split: option.splits)

text \<open>
  Claim C2. For every habit id, day and state: a toggle with no record for the pair makes one
  with \<open>completed = true\<close>; a toggle with a record flips the field of the record that
  \<^verbatim>\<open>find\<close> returns; a second toggle puts the state back as it was when the pair had a
  record, and in every case leaves what the program reads of the log as before the two
  toggles: whether a habit is completed on a day (the truth value of \<^verbatim>\<open>isHabitCompleted\<close>),
  the number of completed days and the streak of every habit.
\<close>

theorem toggle_flips_and_double_toggle:
  "(find (\<lambda>c. habitId c = h \<and> date c = format d) (completions s) = None \<longrightarrow>
      find (\<lambda>c. habitId c = h \<and> date c = format d)
        (completions (toggleHabitCompletion format now h d s)) =
      Some \<lparr>cid = toString now, habitId = h, date = format d, completed = True\<rparr>) \<and>
   (\<forall>c. find (\<lambda>c. habitId c = h \<and> date c = format d) (completions s) = Some c \<longrightarrow>
      find (\<lambda>c. habitId c = h \<and> date c = format d)
        (completions (toggleHabitCompletion format now h d s)) =
      Some (c\<lparr>completed := \<not> completed c\<rparr>) \<and>
      toggleHabitCompletion format now' h d (toggleHabitCompletion format now h d s) = s) \<and>
   (\<forall>h' d'. truthy (isHabitCompleted format h' d'
        (completions (toggleHabitCompletion format now' h d
           (toggleHabitCompletion format now h d s)))) =
      truthy (isHabitCompleted format h' d' (completions s))) \<and>
   (\<forall>hb startOfDay subDays isToday clock.
      completedDays hb (completions (toggleHabitCompletion format now' h d
           (toggleHabitCompletion format now h d s))) =
        completedDays hb (completions s) \<and>
      calculateStreak startOfDay format subDays isToday clock hb
          (completions (toggleHabitCompletion format now' h d
             (toggleHabitCompletion format now h d s))) =
        calculateStreak startOfDay format subDays isToday clock hb (completions s))"
proof (intro conjI allI impI)
  assume "find (\<lambda>c. habitId c = h \<and> date c = format d) (completions s) = None"
  then show "find (\<lambda>c. habitId c = h \<and> date c = format d)
        (completions (toggleHabitCompletion format now h d s)) =
      Some \<lparr>cid = toString now, habitId = h, date = format d, completed = True\<rparr>"
    by (simp add: toggle_absent find_append_new)
next
  fix c assume "find (\<lambda>c. habitId c = h \<and> date c = format d) (completions s) = Some c"
  then show "find (\<lambda>c. habitId c = h \<and> date c = format d)
        (completions (toggleHabitCompletion format now h d s)) =
      Some (c\<lparr>completed := \<not> completed c\<rparr>)"
    by (simp add: toggle_present find_flip_same)
next
  fix c assume c: "find (\<lambda>c. habitId c = h \<and> date c = format d) (completions s) = Some c"
  let ?s2 = "toggleHabitCompletion format now' h d (toggleHabitCompletion format now h d s)"
  have "completions ?s2 = completions s" using c by (simp add: toggle_twice)
  moreover have "habits ?s2 = habits s" "newHabitName ?s2 = newHabitName s"
    "newHabitColor ?s2 = newHabitColor s" "app.more ?s2 = app.more s"
    by (simp_all add: toggleHabitCompletion_def Let_def split: option.splits)
  ultimately show "?s2 = s" by (intro app.equality) simp_all
next
  fix h' d'
  show "truthy (isHabitCompleted format h' d'
        (completions (toggleHabitCompletion format now' h d
           (toggleHabitCompletion format now h d s)))) =
      truthy (isHabitCompleted format h' d' (completions s))"
    by (rule toggle_twice_truthy)
next
  fix hb
  show "completedDays hb (completions (toggleHabitCompletion format now' h d
           (toggleHabitCompletion format now h d s))) =
        completedDays hb (completions s)"
    by (rule toggle_twice_completedDays)
next
  fix hb :: habit and startOfDay :: "int \<Rightarrow> int" and subDays :: "int \<Rightarrow> int \<Rightarrow> int"
    and isToday :: "int \<Rightarrow> int \<Rightarrow> bool" and clock :: "nat \<Rightarrow> int"
  let ?s2 = "toggleHabitCompletion format now' h d (toggleHabitCompletion format now h d s)"
  have "\<forall>d'. done_on format (hid hb) (completions ?s2) d' =
      done_on format (hid hb) (completions s) d'"
    by (simp add: done_on_def toggle_twice_truthy)
  then show "calculateStreak startOfDay format subDays isToday clock hb (completions ?s2) =
      calculateStreak startOfDay format subDays isToday clock hb (completions s)"
    unfolding calculateStreak_def Let_def by (rule streak_loop_cong)
qed

theorem toggle_flips_and_double_toggle_witness:
  "find (\<lambda>c. habitId c = hid run \<and> date c = dayKey 101)
        (completions (toggleHabitCompletion dayKey 1700000005000 (hid run) 101
           \<lparr>habits = [run], completions = four_days, newHabitName = [], newHabitColor = ''#3B82F6''\<rparr>)) =
      Some \<lparr>cid = toString 1700000005000, habitId = hid run, date = dayKey 101, completed = True\<rparr> \<and>
   find (\<lambda>c. habitId c = hid run \<and> date c = dayKey 100)
        (completions (toggleHabitCompletion dayKey 1700000005000 (hid run) 100
           \<lparr>habits = [run], completions = four_days, newHabitName = [], newHabitColor = ''#3B82F6''\<rparr>)) =
      Some (entry (hid run) 100 True) \<and>
   toggleHabitCompletion dayKey 1700000006000 (hid run) 100
     (toggleHabitCompletion dayKey 1700000005000 (hid run) 100
        \<lparr>habits = [run], completions = four_days, newHabitName = [], newHabitColor = ''#3B82F6''\<rparr>) =
     \<lparr>habits = [run], completions = four_days, newHabitName = [], newHabitColor = ''#3B82F6''\<rparr>"
proof -
  let ?s = "\<lparr>habits = [run], completions = four_days, newHabitName = [], newHabitColor = ''#3B82F6''\<rparr>"
  have n: "find (\<lambda>c. habitId c = hid run \<and> date c = dayKey 101) (completions ?s) = None"
    by (simp add: eval_examples)
  have p: "find (\<lambda>c. habitId c = hid run \<and> date c = dayKey 100) (completions ?s) =
      Some (entry (hid run) 100 False)"
    by (simp add: eval_examples)
  have e: "(entry (hid run) 100 False)\<lparr>completed := \<not> completed (entry (hid run) 100 False)\<rparr> =
      entry (hid run) 100 True"
    by (simp add: entry_def)
  note new = toggle_flips_and_double_toggle[of "hid run" dayKey 101 ?s 1700000005000 1700000006000,
      THEN conjunct1, THEN mp, OF n]
  note old = toggle_flips_and_double_toggle[of "hid run" dayKey 100 ?s 1700000005000 1700000006000,
      THEN conjunct2, THEN conjunct1, THEN spec, THEN mp, OF p]
  show ?thesis using new old unfolding e by (intro conjI) blast+
qed


subsection \<open>One record for each pair\<close>

lemma uniqueKeys_toggle:
  assumes "uniqueKeys (completions s)"
  shows "uniqueKeys (completions (toggleHabitCompletion format now h d s))"
proof (cases "find (\<lambda>c. habitId c = h \<and> date c = format d) (completions s)")
  case None
  then have "(h, format d) \<notin> set (map (\<lambda>c. (habitId c, date c)) (completions s))"
    by (auto simp: find_None_iff)
  then show ?thesis using assms None by (simp add: toggle_absent uniqueKeys_def)
next
  case (Some c)
  then show ?thesis using assms
    by (simp add: toggle_present uniqueKeys_def flip_keys del: map_map)
qed

lemma toggle_present_keys:
  assumes "find (\<lambda>c. habitId c = h \<and> date c = format d) (completions s) = Some c"
  shows "map (\<lambda>c. (habitId c, date c)) (completions (toggleHabitCompletion format now h d s)) =
         map (\<lambda>c. (habitId c, date c)) (completions s)"
  using assms by (simp add: toggle_present flip_keys del: map_map)

text \<open>
  Claim C3. The log holds at most one record for each pair of a habit id and a day key: the
  empty log does, and from a state that does, \<^verbatim>\<open>addHabit\<close>, \<^verbatim>\<open>deleteHabit\<close> and
  \<^verbatim>\<open>toggleHabitCompletion\<close> lead to a state that does. A toggle of a pair that has a record
  adds none: the keys of the log, in order, are as before.
\<close>

theorem uniqueKeys_invariant:
  "uniqueKeys [] \<and>
   (uniqueKeys (completions s) \<longrightarrow>
      uniqueKeys (completions (addHabit now now' s)) \<and>
      uniqueKeys (completions (deleteHabit i s)) \<and>
      uniqueKeys (completions (toggleHabitCompletion format now h d s))) \<and>
   (find (\<lambda>c. habitId c = h \<and> date c = format d) (completions s) \<noteq> None \<longrightarrow>
      map (\<lambda>c. (habitId c, date c)) (completions (toggleHabitCompletion format now h d s)) =
      map (\<lambda>c. (habitId c, date c)) (completions s))"
proof (intro conjI impI)
  show "uniqueKeys []" by (simp add: uniqueKeys_def)
next
  assume "uniqueKeys (completions s)"
  then show "uniqueKeys (completions (addHabit now now' s))"
    by (simp add: addHabit_def Let_def)
next
  assume "uniqueKeys (completions s)"
  then show "uniqueKeys (completions (deleteHabit i s))"
    by (simp add: deleteHabit_def uniqueKeys_def distinct_map_filter)
next
  assume "uniqueKeys (completions s)"
  then show "uniqueKeys (completions (toggleHabitCompletion format now h d s))"
    by (rule uniqueKeys_toggle)
next
  assume "find (\<lambda>c. habitId c = h \<and> date c = format d) (completions s) \<noteq> None"
  then show "map (\<lambda>c. (habitId c, date c)) (completions (toggleHabitCompletion format now h d s)) =
      map (\<lambda>c. (habitId c, date c)) (completions s)"
    using toggle_present_keys by blast
qed

theorem uniqueKeys_invariant_witness:
  "uniqueKeys four_days \<and>
   uniqueKeys (completions (addHabit 1700000005000 1700000005001
      \<lparr>habits = [run], completions = four_days, newHabitName = [0x52], newHabitColor = ''#EF4444''\<rparr>)) \<and>
   uniqueKeys (completions (deleteHabit (hid run)
      \<lparr>habits = [run], completions = four_days, newHabitName = [0x52], newHabitColor = ''#EF4444''\<rparr>)) \<and>
   uniqueKeys (completions (toggleHabitCompletion dayKey 1700000005000 (hid run) 100
      \<lparr>habits = [run], completions = four_days, newHabitName = [0x52], newHabitColor = ''#EF4444''\<rparr>)) \<and>
   map (\<lambda>c. (habitId c, date c)) (completions (toggleHabitCompletion dayKey 1700000005000 (hid run) 100
      \<lparr>habits = [run], completions = four_days, newHabitName = [0x52], newHabitColor = ''#EF4444''\<rparr>)) =
   map (\<lambda>c. (habitId c, date c)) four_days"
proof -
  let ?s = "\<lparr>habits = [run], completions = four_days, newHabitName = [0x52], newHabitColor = ''#EF4444''\<rparr>"
  have u: "uniqueKeys (completions ?s)" by (simp add: uniqueKeys_def eval_examples)
  have p: "find (\<lambda>c. habitId c = hid run \<and> date c = dayKey 100) (completions ?s) \<noteq> None"
    by (simp add: eval_examples)
  note inv = uniqueKeys_invariant[of ?s 1700000005000 1700000005001 "hid run" dayKey "hid run" 100]
  note a = inv[THEN conjunct2, THEN conjunct1, THEN mp, OF u]
  note b = inv[THEN conjunct2, THEN conjunct2, THEN mp, OF p]
  show ?thesis using u a b by simp
qed

text \<open>
  Claim C10. A toggle leaves the habits and the input fields as they are, and leaves every
  record of another pair as it is and where it is among the others. What changes is this:
  with no record for the pair, one record is put at the end; with a record, the
  \<open>completed\<close> field of the records of the pair, each staying at its position.
\<close>

theorem toggle_frame:
  "habits (toggleHabitCompletion format now h d s) = habits s \<and>
   newHabitName (toggleHabitCompletion format now h d s) = newHabitName s \<and>
   newHabitColor (toggleHabitCompletion format now h d s) = newHabitColor s \<and>
   filter (\<lambda>c. \<not> (habitId c = h \<and> date c = format d))
       (completions (toggleHabitCompletion format now h d s)) =
     filter (\<lambda>c. \<not> (habitId c = h \<and> date c = format d)) (completions s) \<and>
   (find (\<lambda>c. habitId c = h \<and> date c = format d) (completions s) = None \<longrightarrow>
      completions (toggleHabitCompletion format now h d s) =
        completions s @ [\<lparr>cid = toString now, habitId = h, date = format d, completed = True\<rparr>]) \<and>
   (find (\<lambda>c. habitId c = h \<and> date c = format d) (completions s) \<noteq> None \<longrightarrow>
      length (completions (toggleHabitCompletion format now h d s)) = length (completions s) \<and>
      (\<forall>i < length (completions s).
         completions (toggleHabitCompletion format now h d s) ! i =
           (if habitId (completions s ! i) = h \<and> date (completions s ! i) = format d
            then (completions s ! i)\<lparr>completed := \<not> completed (completions s ! i)\<rparr>
            else completions s ! i)))"
proof (cases "find (\<lambda>c. habitId c = h \<and> date c = format d) (completions s)")
  case None
  then show ?thesis by (simp add: toggle_absent)
next
  case (Some c)
  then show ?thesis by (simp add: toggle_present flip_others[simplified])
qed

theorem toggle_frame_witness:
  "habits (toggleHabitCompletion dayKey 1700000005000 (hid run) 100
      \<lparr>habits = [run], completions = four_days, newHabitName = [0x52], newHabitColor = ''#EF4444''\<rparr>) = [run] \<and>
   completions (toggleHabitCompletion dayKey 1700000005000 (hid run) 100
      \<lparr>habits = [run], completions = four_days, newHabitName = [0x52], newHabitColor = ''#EF4444''\<rparr>) ! 2 =
     entry ''1700000000001'' 100 True \<and>
   completions (toggleHabitCompletion dayKey 1700000005000 (hid run) 100
      \<lparr>habits = [run], completions = four_days, newHabitName = [0x52], newHabitColor = ''#EF4444''\<rparr>) ! 5 =
     entry (hid run) 100 True \<and>
   completions (toggleHabitCompletion dayKey 1700000005000 (hid run) 101
      \<lparr>habits = [run], completions = four_days, newHabitName = [0x52], newHabitColor = ''#EF4444''\<rparr>) =
     four_days @ [\<lparr>cid = toString 1700000005000, habitId = hid run, date = dayKey 101, completed = True\<rparr>]"
proof -
  let ?s = "\<lparr>habits = [run], completions = four_days, newHabitName = [0x52], newHabitColor = ''#EF4444''\<rparr>"
  have p: "find (\<lambda>c. habitId c = hid run \<and> date c = dayKey 100) (completions ?s) \<noteq> None"
    by (simp add: eval_examples)
  have n: "find (\<lambda>c. habitId c = hid run \<and> date c = dayKey 101) (completions ?s) = None"
    by (simp add: eval_examples)
  have l: "(2::nat) < length (completions ?s)" "(5::nat) < length (completions ?s)"
    by (simp_all add: four_days_def)
  note f100 = toggle_frame[of dayKey 1700000005000 "hid run" 100 ?s]
  note f101 = toggle_frame[of dayKey 1700000005000 "hid run" 101 ?s]
  have a: "habits (toggleHabitCompletion dayKey 1700000005000 (hid run) 100 ?s) = [run]"
    using f100 by simp
  note at = f100[THEN conjunct2, THEN conjunct2, THEN conjunct2, THEN conjunct2, THEN conjunct2,
      THEN mp, OF p, THEN conjunct2, THEN spec, THEN mp]
  have b: "completions (toggleHabitCompletion dayKey 1700000005000 (hid run) 100 ?s) ! 2 =
      entry ''1700000000001'' 100 True"
    using at[OF l(1)] by (simp add: eval_examples)
  have c: "completions (toggleHabitCompletion dayKey 1700000005000 (hid run) 100 ?s) ! 5 =
      entry (hid run) 100 True"
    using at[OF l(2)] by (simp add: eval_examples)
  have e: "completions (toggleHabitCompletion dayKey 1700000005000 (hid run) 101 ?s) =
      four_days @ [\<lparr>cid = toString 1700000005000, habitId = hid run, date = dayKey 101, completed = True\<rparr>]"
    using f101[THEN conjunct2, THEN conjunct2, THEN conjunct2, THEN conjunct2, THEN conjunct1,
      THEN mp, OF n] by simp
  show ?thesis using a b c e by blast
qed

text \<open>
  Claim C8, as amended. \<^verbatim>\<open>isHabitCompleted\<close> returns \<^verbatim>\<open>undefined\<close>, not the boolean
  \<^verbatim>\<open>false\<close>, when the log has no record for the habit and day, and the \<open>completed\<close> field
  of the first matching record when it has one (of the matching record, in a log with one
  record for each pair). The two cases of a day that is not completed differ as values;
  they agree in truth value, which is all the program reads.
\<close>

theorem isHabitCompleted_result:
  "((\<forall>c \<in> set cs. \<not> (habitId c = h \<and> date c = format d)) \<longrightarrow>
      isHabitCompleted format h d cs = JSUndefined \<and>
      \<not> truthy (isHabitCompleted format h d cs)) \<and>
   (\<forall>c. find (\<lambda>c. habitId c = h \<and> date c = format d) cs = Some c \<longrightarrow>
      isHabitCompleted format h d cs = JSBool (completed c)) \<and>
   (uniqueKeys cs \<longrightarrow>
      (\<forall>c \<in> set cs. habitId c = h \<and> date c = format d \<longrightarrow>
         isHabitCompleted format h d cs = JSBool (completed c) \<and>
         (\<not> completed c \<longrightarrow> \<not> truthy (isHabitCompleted format h d cs))))"
proof (intro conjI allI impI ballI)
  assume a: "\<forall>c \<in> set cs. \<not> (habitId c = h \<and> date c = format d)"
  then have "find (\<lambda>c. habitId c = h \<and> date c = format d) cs = None"
    by (simp add: find_None_iff)
  then show "isHabitCompleted format h d cs = JSUndefined"
    "\<not> truthy (isHabitCompleted format h d cs)"
    by (simp_all add: isHabitCompleted_def)
next
  fix c assume "find (\<lambda>c. habitId c = h \<and> date c = format d) cs = Some c"
  then show "isHabitCompleted format h d cs = JSBool (completed c)"
    by (simp add: isHabitCompleted_def)
next
  fix c
  assume u: "uniqueKeys cs" and c: "c \<in> set cs" "habitId c = h \<and> date c = format d"
  then obtain c' where c': "find (\<lambda>c. habitId c = h \<and> date c = format d) cs = Some c'"
    by (cases "find (\<lambda>c. habitId c = h \<and> date c = format d) cs") (auto simp: find_None_iff)
  then have "c' \<in> set cs" "habitId c' = h" "date c' = format d"
    by (auto dest: find_SomeD)
  moreover have "inj_on (\<lambda>c. (habitId c, date c)) (set cs)"
    using u by (simp add: uniqueKeys_def distinct_map)
  ultimately have "c' = c" using c by (auto dest: inj_onD)
  then show r: "isHabitCompleted format h d cs = JSBool (completed c)"
    using c' by (simp add: isHabitCompleted_def)
  assume "\<not> completed c"
  then show "\<not> truthy (isHabitCompleted format h d cs)" using r by simp
qed

theorem isHabitCompleted_result_witness:
  "isHabitCompleted dayKey (hid run) 101 four_days = JSUndefined \<and>
   isHabitCompleted dayKey (hid run) 100 four_days = JSBool False \<and>
   isHabitCompleted dayKey (hid run) 99 four_days = JSBool True \<and>
   truthy (isHabitCompleted dayKey (hid run) 101 four_days) =
     truthy (isHabitCompleted dayKey (hid run) 100 four_days)"
proof -
  have n: "\<forall>c \<in> set four_days. \<not> (habitId c = hid run \<and> date c = dayKey 101)"
    by (simp add: eval_examples)
  have u: "uniqueKeys four_days" by (simp add: uniqueKeys_def eval_examples)
  have m: "entry (hid run) 100 False \<in> set four_days" "entry (hid run) 99 True \<in> set four_days"
    by (simp_all add: four_days_def)
  have k: "habitId (entry (hid run) 100 False) = hid run \<and> date (entry (hid run) 100 False) = dayKey 100"
    "habitId (entry (hid run) 99 True) = hid run \<and> date (entry (hid run) 99 True) = dayKey 99"
    by (simp_all add: entry_def)
  note r101 = isHabitCompleted_result[of four_days "hid run" dayKey 101, THEN conjunct1, THEN mp, OF n]
  note r100 = isHabitCompleted_result[of four_days "hid run" dayKey 100, THEN conjunct2, THEN conjunct2,
      THEN mp, OF u, THEN bspec, OF m(1), THEN mp, OF k(1)]
  note r99 = isHabitCompleted_result[of four_days "hid run" dayKey 99, THEN conjunct2, THEN conjunct2,
      THEN mp, OF u, THEN bspec, OF m(2), THEN mp, OF k(2)]
  show ?thesis using r101 r100 r99 by (simp add: entry_def)
qed

theorem isHabitCompleted_absent_counterexample:
  "isHabitCompleted dayKey (hid run) 101 four_days \<noteq> JSBool False"
  by (simp add: isHabitCompleted_def eval_examples)


section \<open>The habit registry\<close>

text \<open>
  Claim C5. \<^verbatim>\<open>deleteHabit\<close> removes the habits with the given id and keeps the others in
  order; it removes every record of that habit id, so that \<open>completionsFor\<close> the id is empty
  afterwards, and keeps the records of every other id. With no habit of that id the list of
  habits is unchanged, and the whole state is unchanged when the log has no orphan record,
  that is, every record belongs to a listed habit. The function has no failing branch.
\<close>

theorem deleteHabit_cascade:
  "habits (deleteHabit i s) = filter (\<lambda>x. hid x \<noteq> i) (habits s) \<and>
   (\<forall>x \<in> set (habits (deleteHabit i s)). hid x \<noteq> i) \<and>
   (\<forall>c \<in> set (completions (deleteHabit i s)). habitId c \<noteq> i) \<and>
   completionsFor i (completions (deleteHabit i s)) = [] \<and>
   (\<forall>j. j \<noteq> i \<longrightarrow>
      completionsFor j (completions (deleteHabit i s)) = completionsFor j (completions s)) \<and>
   newHabitName (deleteHabit i s) = newHabitName s \<and>
   newHabitColor (deleteHabit i s) = newHabitColor s \<and>
   ((\<forall>x \<in> set (habits s). hid x \<noteq> i) \<longrightarrow>
      habits (deleteHabit i s) = habits s \<and>
      ((\<forall>c \<in> set (completions s). habitId c \<in> hid ` set (habits s)) \<longrightarrow>
         deleteHabit i s = s))"
proof (intro conjI allI impI ballI)
  show "habits (deleteHabit i s) = filter (\<lambda>x. hid x \<noteq> i) (habits s)"
    by (simp add: deleteHabit_def)
  show "completionsFor i (completions (deleteHabit i s)) = []"
    by (simp add: deleteHabit_def completionsFor_def filter_empty_conv)
  show "newHabitName (deleteHabit i s) = newHabitName s"
    "newHabitColor (deleteHabit i s) = newHabitColor s"
    by (simp_all add: deleteHabit_def)
next
  fix x assume "x \<in> set (habits (deleteHabit i s))"
  then show "hid x \<noteq> i" by (simp add: deleteHabit_def)
next
  fix c assume "c \<in> set (completions (deleteHabit i s))"
  then show "habitId c \<noteq> i" by (simp add: deleteHabit_def)
next
  fix j assume "j \<noteq> i"
  then show "completionsFor j (completions (deleteHabit i s)) = completionsFor j (completions s)"
    by (auto simp: deleteHabit_def completionsFor_def intro!: filter_cong)
next
  assume a: "\<forall>x \<in> set (habits s). hid x \<noteq> i"
  then show h: "habits (deleteHabit i s) = habits s"
    by (simp add: deleteHabit_def)
  assume "\<forall>c \<in> set (completions s). habitId c \<in> hid ` set (habits s)"
  then have "\<forall>c \<in> set (completions s). habitId c \<noteq> i" using a by (metis imageE)
  then have "completions (deleteHabit i s) = completions s"
    by (simp add: deleteHabit_def)
  then show "deleteHabit i s = s" using h by (simp add: deleteHabit_def)
qed

theorem deleteHabit_cascade_witness:
  "habits (deleteHabit (hid run)
      \<lparr>habits = [run, run\<lparr>hid := ''1700000000001''\<rparr>], completions = four_days,
       newHabitName = [], newHabitColor = ''#3B82F6''\<rparr>) = [run\<lparr>hid := ''1700000000001''\<rparr>] \<and>
   completionsFor (hid run) (completions (deleteHabit (hid run)
      \<lparr>habits = [run, run\<lparr>hid := ''1700000000001''\<rparr>], completions = four_days,
       newHabitName = [], newHabitColor = ''#3B82F6''\<rparr>)) = [] \<and>
   completionsFor ''1700000000001'' (completions (deleteHabit (hid run)
      \<lparr>habits = [run, run\<lparr>hid := ''1700000000001''\<rparr>], completions = four_days,
       newHabitName = [], newHabitColor = ''#3B82F6''\<rparr>)) = [entry ''1700000000001'' 100 True] \<and>
   deleteHabit ''1700000000002''
      \<lparr>habits = [run, run\<lparr>hid := ''1700000000001''\<rparr>], completions = four_days,
       newHabitName = [], newHabitColor = ''#3B82F6''\<rparr> =
      \<lparr>habits = [run, run\<lparr>hid := ''1700000000001''\<rparr>], completions = four_days,
       newHabitName = [], newHabitColor = ''#3B82F6''\<rparr>"
proof -
  let ?s = "\<lparr>habits = [run, run\<lparr>hid := ''1700000000001''\<rparr>], completions = four_days,
       newHabitName = [], newHabitColor = ''#3B82F6''\<rparr>"
  note del = deleteHabit_cascade[of "hid run" ?s]
  note none = deleteHabit_cascade[of "''1700000000002''" ?s]
  have a: "habits (deleteHabit (hid run) ?s) = [run\<lparr>hid := ''1700000000001''\<rparr>]"
    using del by (simp add: run_def)
  have b: "completionsFor (hid run) (completions (deleteHabit (hid run) ?s)) = []"
    using del by blast
  have ne: "''1700000000001'' \<noteq> hid run" by (simp add: run_def)
  have "completionsFor ''1700000000001'' (completions (deleteHabit (hid run) ?s)) =
      completionsFor ''1700000000001'' (completions ?s)"
    using del ne by blast
  then have c: "completionsFor ''1700000000001'' (completions (deleteHabit (hid run) ?s)) =
      [entry ''1700000000001'' 100 True]"
    by (simp add: completionsFor_def four_days_def entry_def run_def)
  have absent: "\<forall>x \<in> set (habits ?s). hid x \<noteq> ''1700000000002''" by (simp add: run_def)
  have owned: "\<forall>c \<in> set (completions ?s). habitId c \<in> hid ` set (habits ?s)"
    by (simp add: four_days_def entry_def run_def)
  have d: "deleteHabit ''1700000000002'' ?s = ?s"
    using none absent owned by blast
  show ?thesis using a b c d by blast
qed

subsection \<open>Trimming\<close>

lemma last_dropWhile: "dropWhile P xs \<noteq> [] \<Longrightarrow> last (dropWhile P xs) = last xs"
  by (induction xs) (auto split: if_splits)

lemma trim_ends:
  assumes "trim s \<noteq> []"
  shows "\<not> isWhiteSpace (hd (trim s)) \<and> \<not> isWhiteSpace (last (trim s))"
proof -
  let ?a = "dropWhile isWhiteSpace s"
  let ?b = "dropWhile isWhiteSpace (rev ?a)"
  have b: "?b \<noteq> []" using assms by (simp add: trim_def)
  have a: "?a \<noteq> []"
  proof
    assume e: "?a = []"
    have "?b = []" unfolding e by simp
    then show False using b by simp
  qed
  have "last (trim s) = hd ?b" using b by (simp add: trim_def last_rev)
  moreover have "\<not> isWhiteSpace (hd ?b)" using b by (rule hd_dropWhile)
  moreover have "hd (trim s) = last ?b" using b by (simp add: trim_def hd_rev)
  moreover have "last ?b = last (rev ?a)" using b by (rule last_dropWhile)
  moreover have "last (rev ?a) = hd ?a" using a by (simp add: last_rev)
  moreover have "\<not> isWhiteSpace (hd ?a)" using a by (rule hd_dropWhile)
  ultimately show ?thesis by simp
qed

text \<open>
  Claim C6, as amended. \<^verbatim>\<open>addHabit\<close> trims the name typed in. If nothing is left, the state
  is returned as it is, and nothing is raised. Otherwise one habit is put at the end of the
  list, the habits before it in their order: its name is the trimmed text, which neither
  begins nor ends with white space, its colour the chosen one, \<open>createdAt\<close> the reading of
  the clock, and its id the decimal text of the reading of \<^verbatim>\<open>Date.now()\<close>; the log is
  unchanged and the input field is cleared. The id is new when every id in the list is the
  text of another reading, an earlier one for instance; the function makes no check.
\<close>

theorem addHabit_appends:
  "(trim (newHabitName s) = [] \<longrightarrow> addHabit now now' s = s) \<and>
   (trim (newHabitName s) \<noteq> [] \<longrightarrow>
      habits (addHabit now now' s) =
        habits s @ [\<lparr>hid = toString now, name = trim (newHabitName s),
                     color = newHabitColor s, createdAt = now'\<rparr>] \<and>
      \<not> isWhiteSpace (hd (trim (newHabitName s))) \<and>
      \<not> isWhiteSpace (last (trim (newHabitName s))) \<and>
      completions (addHabit now now' s) = completions s \<and>
      newHabitColor (addHabit now now' s) = newHabitColor s \<and>
      newHabitName (addHabit now now' s) = [] \<and>
      ((\<forall>x \<in> set (habits s). \<exists>t. t \<noteq> now \<and> hid x = toString t) \<longrightarrow>
         (\<forall>x \<in> set (habits s). hid x \<noteq> toString now)))"
proof (intro conjI impI ballI)
  assume "trim (newHabitName s) = []"
  then show "addHabit now now' s = s" by (simp add: addHabit_def)
next
  assume t: "trim (newHabitName s) \<noteq> []"
  then show "habits (addHabit now now' s) =
        habits s @ [\<lparr>hid = toString now, name = trim (newHabitName s),
                     color = newHabitColor s, createdAt = now'\<rparr>]"
    "completions (addHabit now now' s) = completions s"
    "newHabitColor (addHabit now now' s) = newHabitColor s"
    "newHabitName (addHabit now now' s) = []"
    by (simp_all add: addHabit_def Let_def)
  show "\<not> isWhiteSpace (hd (trim (newHabitName s)))"
    "\<not> isWhiteSpace (last (trim (newHabitName s)))"
    using trim_ends[OF t] by simp_all
next
  fix x
  assume "\<forall>x \<in> set (habits s). \<exists>t. t \<noteq> now \<and> hid x = toString t" and "x \<in> set (habits s)"
  then obtain t where "t \<noteq> now" "hid x = toString t" by blast
  then show "hid x \<noteq> toString now" using toString_inj by auto
qed

theorem addHabit_appends_witness:
  "addHabit 1700000005000 1700000005001
      \<lparr>habits = [run], completions = four_days, newHabitName = [0x20, 0x20, 0x20],
       newHabitColor = ''#EF4444''\<rparr> =
      \<lparr>habits = [run], completions = four_days, newHabitName = [0x20, 0x20, 0x20],
       newHabitColor = ''#EF4444''\<rparr> \<and>
   habits (addHabit 1700000005000 1700000005001
      \<lparr>habits = [run], completions = four_days, newHabitName = [0x20, 0x52, 0x65, 0x61, 0x64, 0x9],
       newHabitColor = ''#EF4444''\<rparr>) =
      [run, \<lparr>hid = ''1700000005000'', name = [0x52, 0x65, 0x61, 0x64], color = ''#EF4444'',
             createdAt = 1700000005001\<rparr>] \<and>
   hid run \<noteq> toString 1700000005000"
proof -
  let ?blank = "\<lparr>habits = [run], completions = four_days, newHabitName = [0x20, 0x20, 0x20],
       newHabitColor = ''#EF4444''\<rparr>"
  let ?read = "\<lparr>habits = [run], completions = four_days,
       newHabitName = [0x20, 0x52, 0x65, 0x61, 0x64, 0x9], newHabitColor = ''#EF4444''\<rparr>"
  have e: "trim (newHabitName ?blank) = []" by (simp add: trim_def isWhiteSpace_def)
  have t: "trim (newHabitName ?read) = [0x52, 0x65, 0x61, 0x64]"
    by (simp add: trim_def isWhiteSpace_def)
  then have ne: "trim (newHabitName ?read) \<noteq> []" by simp
  have ids: "\<forall>x \<in> set (habits ?read). \<exists>t. t \<noteq> 1700000005000 \<and> hid x = toString t"
  proof -
    have "hid run = toString 1700000000000" by (simp add: run_def toString.simps digit_def)
    moreover have "(1700000000000::nat) \<noteq> 1700000005000" by simp
    ultimately have "\<exists>t. t \<noteq> 1700000005000 \<and> hid run = toString t" by blast
    then show ?thesis by simp
  qed
  have a: "addHabit 1700000005000 1700000005001 ?blank = ?blank"
    using addHabit_appends[of ?blank 1700000005000 1700000005001] e by blast
  note r = addHabit_appends[of ?read 1700000005000 1700000005001, THEN conjunct2, THEN mp, OF ne]
  have b: "habits (addHabit 1700000005000 1700000005001 ?read) =
      [run, \<lparr>hid = ''1700000005000'', name = [0x52, 0x65, 0x61, 0x64], color = ''#EF4444'',
             createdAt = 1700000005001\<rparr>]"
    using r t by (simp add: toString.simps digit_def)
  have c: "hid run \<noteq> toString 1700000005000" using r ids by simp
  show ?thesis using a b c by blast
qed

theorem addHabit_fresh_id_counterexample:
  "hid (last (habits (addHabit 1700000000000 1700000000000
      \<lparr>habits = [run], completions = [], newHabitName = [0x52, 0x65, 0x61, 0x64],
       newHabitColor = ''#EF4444''\<rparr>))) \<in>
   hid ` set (habits
      \<lparr>habits = [run], completions = [], newHabitName = [0x52, 0x65, 0x61, 0x64],
       newHabitColor = ''#EF4444''\<rparr>)"
  by (simp add: addHabit_def trim_def isWhiteSpace_def Let_def run_def toString.simps digit_def)


section \<open>The completion rate\<close>

subsection \<open>Rounding to 53 bits\<close>

lemma rne_err:
  assumes "0 < b"
  shows "\<bar>of_nat (rne a b) - (of_nat a / of_nat b :: rat)\<bar> \<le> 1 / 2"
proof -
  define q where "q = a div b"
  define r where "r = a mod b"
  have "q * b + r = a" by (simp add: q_def r_def)
  then have "(of_nat q * of_nat b + of_nat r :: rat) = of_nat a"
    by (metis of_nat_add of_nat_mult)
  then have e: "(of_nat a / of_nat b :: rat) = of_nat q + of_nat r / of_nat b"
    using assms by (simp add: field_simps)
  have b: "(0::rat) < of_nat b" using assms by simp
  consider (lo) "2 * r < b" | (hi) "b < 2 * r" | (tie) "2 * r = b" by linarith
  then show ?thesis
  proof cases
    case lo
    then have "(of_nat (2 * r) :: rat) < of_nat b" by (simp only: of_nat_less_iff)
    then have "(of_nat r / of_nat b :: rat) < 1 / 2" using b by (simp add: field_simps)
    moreover have "(0::rat) \<le> of_nat r / of_nat b" by simp
    moreover have "rne a b = q" using lo by (simp add: rne_def q_def r_def Let_def)
    ultimately show ?thesis using e by simp
  next
    case hi
    then have "(of_nat b :: rat) < of_nat (2 * r)" by (simp only: of_nat_less_iff)
    then have "(1 / 2 :: rat) < of_nat r / of_nat b" using b by (simp add: field_simps)
    moreover have "r < b" using assms by (simp add: r_def)
    then have "(of_nat r :: rat) < of_nat b" by (simp only: of_nat_less_iff)
    then have "(of_nat r / of_nat b :: rat) < 1" using b by simp
    moreover have "rne a b = q + 1" using hi by (simp add: rne_def q_def r_def Let_def)
    ultimately show ?thesis using e by simp
  next
    case tie
    then have "(of_nat (2 * r) :: rat) = of_nat b" by simp
    then have h: "(of_nat r / of_nat b :: rat) = 1 / 2" using b by (simp add: field_simps)
    have "rne a b = q \<or> rne a b = q + 1" using tie by (simp add: rne_def q_def r_def Let_def)
    then show ?thesis using e h by auto
  qed
qed

lemma scaled_den_pos: "0 < b \<Longrightarrow> 0 < scaled_den b p"
  by (simp add: scaled_den_def)

lemma scaled_quot:
  assumes "0 < b"
  shows "(of_nat (scaled_num a p) / of_nat (scaled_den b p) :: rat) =
         of_nat a / of_nat b * 2 powi p"
proof (cases "0 \<le> p")
  case True
  then show ?thesis by (simp add: scaled_num_def scaled_den_def power_int_def)
next
  case False
  then show ?thesis
    by (simp add: scaled_num_def scaled_den_def power_int_def field_simps)
qed

lemma powi2_pos: "(0::rat) < 2 powi p"
  by (simp add: zero_less_power_int)

lemma powi2_add: "(2::rat) powi (m + n) = 2 powi m * 2 powi n"
  by (rule power_int_add) simp

text \<open>The shift that \<open>round53\<close> takes puts the quotient in the binade of 53-bit mantissas.\<close>

lemma round53_shift:
  assumes a: "0 < a" and b: "0 < b"
  obtains p where "round53 a b e = (rne (scaled_num a p) (scaled_den b p), e - p)"
    and "2 ^ 52 \<le> (of_nat a / of_nat b :: rat) * 2 powi p"
    and "(of_nat a / of_nat b :: rat) * 2 powi p < 2 ^ 53"
proof -
  define la where "la = floorlog 2 a"
  define lb where "lb = floorlog 2 b"
  define p0 where "p0 = 53 + int lb - int la"
  define x where "x = (of_nat a / of_nat b :: rat)"
  have la: "2 ^ (la - 1) \<le> a" "a < 2 ^ la" and lb: "2 ^ (lb - 1) \<le> b" "b < 2 ^ lb"
    using floorlog_bounds[of a 2] floorlog_bounds[of b 2] a b by (simp_all add: la_def lb_def)
  have la1: "1 \<le> la" and lb1: "1 \<le> lb"
    using a b floorlog_eq_zero_iff[of 2 a] floorlog_eq_zero_iff[of 2 b]
    by (simp_all add: la_def lb_def Suc_le_eq)
  have ra: "(2::rat) ^ (la - 1) \<le> of_nat a" "(of_nat a :: rat) < 2 ^ la"
    and rb: "(2::rat) ^ (lb - 1) \<le> of_nat b" "(of_nat b :: rat) < 2 ^ lb"
    using la lb by (metis of_nat_le_iff of_nat_less_iff of_nat_numeral of_nat_power)+
  have bpos: "(0::rat) < of_nat b" using b by simp
  have xpos: "0 < x" using a b by (simp add: x_def)
  have lower: "2 powi (int la - 1 - int lb) < x"
  proof -
    have "(2::rat) ^ (la - 1) * of_nat b < 2 ^ (la - 1) * 2 ^ lb" using rb(2) by simp
    also have "\<dots> \<le> of_nat a * 2 ^ lb" using ra(1) by simp
    finally have "(2::rat) ^ (la - 1) / 2 ^ lb < of_nat a / of_nat b"
      using bpos by (simp add: field_simps)
    moreover have "(2::rat) powi (int la - 1 - int lb) = 2 ^ (la - 1) / 2 ^ lb"
    proof -
      have "int la - 1 - int lb = int (la - 1) + - int lb" using la1 by simp
      then have "(2::rat) powi (int la - 1 - int lb) = 2 powi int (la - 1) * 2 powi (- int lb)"
        by (simp only: powi2_add)
      then show ?thesis by (simp add: power_int_minus field_simps)
    qed
    ultimately show ?thesis by (simp add: x_def)
  qed
  have upper: "x < 2 powi (int la + 1 - int lb)"
  proof -
    have "of_nat a * (2::rat) ^ (lb - 1) < 2 ^ la * 2 ^ (lb - 1)" using ra(2) by simp
    also have "\<dots> \<le> 2 ^ la * of_nat b" using rb(1) by simp
    finally have "of_nat a / of_nat b < (2::rat) ^ la / 2 ^ (lb - 1)"
      using bpos by (simp add: field_simps)
    moreover have "(2::rat) powi (int la + 1 - int lb) = 2 ^ la / 2 ^ (lb - 1)"
    proof -
      have "int la + 1 - int lb = int la + - int (lb - 1)" using lb1 by simp
      then have "(2::rat) powi (int la + 1 - int lb) = 2 powi int la * 2 powi (- int (lb - 1))"
        by (simp only: powi2_add)
      then show ?thesis by (simp add: power_int_minus field_simps)
    qed
    ultimately show ?thesis by (simp add: x_def)
  qed
  have lo0: "2 ^ 52 < x * 2 powi p0"
  proof -
    have "2 powi (int la - 1 - int lb) * 2 powi p0 < x * 2 powi p0"
      using lower powi2_pos[of p0] by simp
    moreover have "int la - 1 - int lb + p0 = 52" by (simp add: p0_def)
    then have "(2::rat) powi (int la - 1 - int lb) * 2 powi p0 = 2 powi 52"
      by (simp only: powi2_add[symmetric])
    ultimately show ?thesis by simp
  qed
  have hi0: "x * 2 powi p0 < 2 ^ 54"
  proof -
    have "x * 2 powi p0 < 2 powi (int la + 1 - int lb) * 2 powi p0"
      using upper powi2_pos[of p0] by simp
    moreover have "int la + 1 - int lb + p0 = 54" by (simp add: p0_def)
    then have "(2::rat) powi (int la + 1 - int lb) * 2 powi p0 = 2 powi 54"
      by (simp only: powi2_add[symmetric])
    ultimately show ?thesis by simp
  qed
  have test: "2 ^ 53 * scaled_den b p0 \<le> scaled_num a p0 \<longleftrightarrow> 2 ^ 53 \<le> x * 2 powi p0"
  proof -
    have d: "(0::rat) < of_nat (scaled_den b p0)" using scaled_den_pos[OF b] by simp
    have "2 ^ 53 * scaled_den b p0 \<le> scaled_num a p0 \<longleftrightarrow>
          (of_nat (2 ^ 53 * scaled_den b p0) :: rat) \<le> of_nat (scaled_num a p0)"
      by (simp only: of_nat_le_iff)
    also have "\<dots> \<longleftrightarrow> (2 ^ 53 :: rat) \<le> of_nat (scaled_num a p0) / of_nat (scaled_den b p0)"
      using d by (simp add: field_simps)
    finally show ?thesis by (simp add: scaled_quot[OF b] x_def)
  qed
  have half: "x * 2 powi (p0 - 1) = x * 2 powi p0 / 2"
  proof -
    have "(2::rat) powi (p0 - 1) = 2 powi p0 * 2 powi (- 1)"
      using powi2_add[of p0 "- 1"] by simp
    then show ?thesis by (simp add: power_int_minus)
  qed
  show ?thesis
  proof (cases "2 ^ 53 \<le> x * 2 powi p0")
    case True
    then have "round53 a b e = (rne (scaled_num a (p0 - 1)) (scaled_den b (p0 - 1)), e - (p0 - 1))"
      using a test by (simp add: round53_def Let_def p0_def la_def lb_def)
    moreover have "2 ^ 52 \<le> x * 2 powi (p0 - 1)" using True by (simp add: half)
    moreover have "x * 2 powi (p0 - 1) < 2 ^ 53" using hi0 by (simp add: half)
    ultimately show ?thesis using that unfolding x_def by blast
  next
    case False
    then have "round53 a b e = (rne (scaled_num a p0) (scaled_den b p0), e - p0)"
      using a test by (simp add: round53_def Let_def p0_def la_def lb_def)
    moreover have "2 ^ 52 \<le> x * 2 powi p0" using lo0 by simp
    moreover have "x * 2 powi p0 < 2 ^ 53" using False by simp
    ultimately show ?thesis using that unfolding x_def by blast
  qed
qed


lemma round53_mantissa:
  assumes "0 < a" and "0 < b"
  shows "2 ^ 52 \<le> fst (round53 a b e) \<and> fst (round53 a b e) \<le> 2 ^ 53"
proof -
  obtain p where r: "round53 a b e = (rne (scaled_num a p) (scaled_den b p), e - p)"
    and lo: "2 ^ 52 \<le> (of_nat a / of_nat b :: rat) * 2 powi p"
    and hi: "(of_nat a / of_nat b :: rat) * 2 powi p < 2 ^ 53"
    using round53_shift[OF assms] by blast
  define m where "m = rne (scaled_num a p) (scaled_den b p)"
  have "\<bar>of_nat m - (of_nat a / of_nat b :: rat) * 2 powi p\<bar> \<le> 1 / 2"
    using rne_err[OF scaled_den_pos[OF assms(2)], of "scaled_num a p" p]
    by (simp add: m_def scaled_quot[OF assms(2)])
  then have "(2 ^ 52 :: rat) - 1 / 2 \<le> of_nat m" "(of_nat m :: rat) < 2 ^ 53 + 1 / 2"
    using lo hi by linarith+
  then have "(of_nat (2 ^ 52 - 1) :: rat) < of_nat m" "(of_nat m :: rat) < of_nat (2 ^ 53 + 1)"
    by simp_all
  then have "2 ^ 52 - 1 < m" "m < 2 ^ 53 + 1" by (simp_all only: of_nat_less_iff)
  then show ?thesis using r by (simp add: m_def)
qed

text \<open>The rounded number is within the relative error \<open>2\<^sup>-\<^sup>5\<^sup>3\<close> of the exact one.\<close>

lemma round53_err:
  assumes "0 < a" and "0 < b"
  shows "\<bar>dval (round53 a b e) - of_nat a / of_nat b * 2 powi e\<bar> \<le>
         of_nat a / of_nat b * 2 powi e / 2 ^ 53"
proof -
  obtain p where r: "round53 a b e = (rne (scaled_num a p) (scaled_den b p), e - p)"
    and lo: "2 ^ 52 \<le> (of_nat a / of_nat b :: rat) * 2 powi p"
    using round53_shift[OF assms] by blast
  define m where "m = rne (scaled_num a p) (scaled_den b p)"
  define v where "v = (of_nat a / of_nat b :: rat) * 2 powi p"
  define s where "s = (2::rat) powi (e - p)"
  have s: "0 < s" by (simp add: s_def powi2_pos)
  have m: "\<bar>of_nat m - v\<bar> \<le> 1 / 2"
    using rne_err[OF scaled_den_pos[OF assms(2)], of "scaled_num a p" p]
    by (simp add: m_def v_def scaled_quot[OF assms(2)])
  have "(2::rat) powi e = 2 powi p * 2 powi (e - p)" using powi2_add[of p "e - p"] by simp
  then have exact: "of_nat a / of_nat b * 2 powi e = v * s" by (simp add: v_def s_def)
  have d: "dval (round53 a b e) = of_nat m * s" by (simp add: r dval_def m_def s_def)
  have "\<bar>of_nat m * s - v * s\<bar> = \<bar>of_nat m - v\<bar> * s"
    using s by (simp add: abs_mult flip: left_diff_distrib)
  also have "\<dots> \<le> 1 / 2 * s" using m s by (simp add: mult_right_mono)
  also have "\<dots> \<le> v / 2 ^ 53 * s"
  proof -
    have "2 ^ 52 \<le> v" using lo by (simp only: v_def)
    then have "(1 / 2 :: rat) \<le> v / 2 ^ 53" by simp
    then show ?thesis using s by (simp only: mult_right_mono less_imp_le)
  qed
  finally have "\<bar>of_nat m * s - v * s\<bar> \<le> v * s / 2 ^ 53" by simp
  then show ?thesis unfolding d exact .
qed

lemma Math_round_floor: "Math_round x = \<lfloor>dval x + 1 / 2\<rfloor>"
proof (cases "0 \<le> snd x")
  case True
  then have "dval x = of_int (int (fst x * 2 ^ nat (snd x)))"
    by (simp add: dval_def power_int_def)
  moreover have "\<lfloor>(of_int (int (fst x * 2 ^ nat (snd x))) :: rat) + 1 / 2\<rfloor> =
      int (fst x * 2 ^ nat (snd x))"
    by (intro floor_unique) simp_all
  ultimately have "\<lfloor>dval x + 1 / 2\<rfloor> = int (fst x * 2 ^ nat (snd x))"
    by (simp only:)
  then show ?thesis using True by (simp add: Math_round_def)
next
  case False
  define k where "k = nat (- snd x)"
  have k: "0 < k" using False by (simp add: k_def)
  then have p2: "(2::nat) ^ k = 2 * 2 ^ (k - 1)" by (cases k) simp_all
  define t where "t = (2::rat) ^ (k - 1)"
  have t: "0 < t" by (simp add: t_def)
  have tk: "(of_nat (2 ^ k) :: rat) = 2 * t" using p2 by (simp add: t_def)
  have "dval x = of_nat (fst x) / of_nat (2 ^ k)"
    using False by (simp add: dval_def power_int_def k_def field_simps)
  then have "dval x + 1 / 2 = of_nat (fst x) / (2 * t) + 1 / 2" by (simp only: tk)
  also have "\<dots> = (of_nat (fst x) + t) / (2 * t)" using t by (simp add: field_simps)
  also have "\<dots> = of_nat (fst x + 2 ^ (k - 1)) / of_nat (2 ^ k)"
    by (simp only: tk) (simp add: t_def)
  finally have "dval x + 1 / 2 = of_nat (fst x + 2 ^ (k - 1)) / of_nat (2 ^ k)" .
  then have "\<lfloor>dval x + 1 / 2\<rfloor> = int ((fst x + 2 ^ (k - 1)) div 2 ^ k)"
    by (simp only: floor_divide_of_nat_eq)
  then show ?thesis using False by (simp add: Math_round_def k_def)
qed


subsection \<open>The rate and the exact quotient\<close>

lemma rate_zero: "Math_round (js_mul (js_div (js_num 0) (js_num d)) (js_num 100)) = 0"
  by (simp add: js_mul_def js_div_def js_num_def round53_def Math_round_def)

text \<open>
  The product that \<^verbatim>\<open>Math.round\<close> receives: two roundings away from the exact \<open>100 c / d\<close>.
\<close>

lemma rate_value:
  assumes c: "0 < c" and d: "0 < d"
  shows "\<bar>dval (js_mul (js_div (js_num c) (js_num d)) (js_num 100)) -
          100 * of_nat c / of_nat d\<bar> \<le>
         100 * of_nat c / of_nat d * (2 / 2 ^ 53 + 1 / 2 ^ 106)"
proof -
  define q where "q = round53 c d 0"
  define x where "x = (of_nat c / of_nat d :: rat)"
  define y where "y = dval (round53 (fst q * 100) 1 (snd q))"
  have jq: "js_mul (js_div (js_num c) (js_num d)) (js_num 100) = round53 (fst q * 100) 1 (snd q)"
    by (simp add: js_mul_def js_div_def js_num_def q_def)
  have x0: "0 \<le> x" by (simp add: x_def)
  have e1: "\<bar>dval q - x\<bar> \<le> x / 2 ^ 53"
    using round53_err[OF c d, of 0] by (simp add: q_def x_def)
  have "0 < fst q" using round53_mantissa[OF c d, of 0] by (simp add: q_def)
  then have m: "0 < fst q * 100" by simp
  have "(of_nat (fst q * 100) / of_nat 1 :: rat) * 2 powi (snd q) = 100 * dval q"
    by (simp add: dval_def)
  then have e2: "\<bar>y - 100 * dval q\<bar> \<le> 100 * dval q / 2 ^ 53"
    using round53_err[OF m, of 1 "snd q"] by (simp only: y_def)
  note a = e1[unfolded abs_le_iff] and b = e2[unfolded abs_le_iff]
  have "\<bar>y - 100 * x\<bar> \<le> 100 * x * (2 / 2 ^ 53 + 1 / 2 ^ 106)"
    unfolding abs_le_iff using a b x0 by (simp add: field_simps)
  then show ?thesis by (simp add: jq y_def x_def)
qed

lemma rate_nearest:
  assumes c: "c < 2 ^ 32" and d: "0 < d"
  shows "2 * \<bar>Math_round (js_mul (js_div (js_num c) (js_num d)) (js_num 100)) * int d -
              100 * int c\<bar> \<le> int d"
proof (cases "c = 0")
  case True
  then show ?thesis by (simp add: rate_zero)
next
  case False
  define y where "y = dval (js_mul (js_div (js_num c) (js_num d)) (js_num 100))"
  define r where "r = Math_round (js_mul (js_div (js_num c) (js_num d)) (js_num 100))"
  define C where "C = (of_nat c :: rat)"
  define D where "D = (of_nat d :: rat)"
  define R where "R = (of_int r :: rat)"
  have D: "0 < D" using d by (simp add: D_def)
  have C: "C < 2 ^ 32"
  proof -
    have "(of_nat c :: rat) < of_nat (2 ^ 32)" using c by (simp only: of_nat_less_iff)
    then show ?thesis by (simp add: C_def)
  qed
  have C0: "0 \<le> C" by (simp add: C_def)
  have v: "\<bar>y - 100 * C / D\<bar> \<le> 100 * C / D * (2 / 2 ^ 53 + 1 / 2 ^ 106)"
    using rate_value[of c d] False d by (simp add: y_def C_def D_def)
  have "r = \<lfloor>y + 1 / 2\<rfloor>" by (simp add: r_def y_def Math_round_floor)
  then have fl: "R \<le> y + 1 / 2" "y + 1 / 2 < R + 1"
    unfolding R_def using floor_le_iff[of "y + 1 / 2" r] by simp_all
  define t where "t = R - 100 * C / D"
  have t: "\<bar>t\<bar> \<le> 1 / 2 + 100 * C / D * (2 / 2 ^ 53 + 1 / 2 ^ 106)"
    using v fl by (simp add: t_def abs_le_iff, linarith?)
  have tD: "t * D = R * D - 100 * C" using D by (simp add: t_def field_simps)
  have "\<bar>R * D - 100 * C\<bar> = \<bar>t\<bar> * D" using D by (simp add: tD[symmetric] abs_mult)
  also have "\<dots> \<le> (1 / 2 + 100 * C / D * (2 / 2 ^ 53 + 1 / 2 ^ 106)) * D"
    using t D by (simp only: mult_right_mono less_imp_le)
  also have "\<dots> = D / 2 + 100 * C * (2 / 2 ^ 53 + 1 / 2 ^ 106)"
    using D by (simp add: field_simps)
  also have "\<dots> < D / 2 + 1 / 2" using C C0 by simp
  finally have "2 * \<bar>R * D - 100 * C\<bar> < D + 1" by simp
  moreover have "R * D - 100 * C = of_int (r * int d - 100 * int c)"
    by (simp add: R_def D_def C_def)
  ultimately have "(of_int (2 * \<bar>r * int d - 100 * int c\<bar>) :: rat) < of_int (int d + 1)"
    by (simp add: D_def)
  then have "2 * \<bar>r * int d - 100 * int c\<bar> < int d + 1" by (simp only: of_int_less_iff)
  then show ?thesis by (simp add: r_def)
qed

lemma rate_round:
  assumes c: "c < 2 ^ 32" and d: "0 < d" and nt: "(200 * c) mod (2 * d) \<noteq> d"
  shows "Math_round (js_mul (js_div (js_num c) (js_num d)) (js_num 100)) =
         round (100 * of_nat c / of_nat d :: rat)"
proof -
  define r where "r = Math_round (js_mul (js_div (js_num c) (js_num d)) (js_num 100))"
  have n: "2 * \<bar>r * int d - 100 * int c\<bar> \<le> int d"
    using rate_nearest[OF c d] by (simp add: r_def)
  have "200 * int c - 2 * (r * int d) \<noteq> int d"
  proof
    assume "200 * int c - 2 * (r * int d) = int d"
    then have "int (200 * c) = int d + r * int (2 * d)" by simp
    then have "int (200 * c) mod int (2 * d) = (int d + r * int (2 * d)) mod int (2 * d)"
      by (simp only:)
    also have "\<dots> = int d mod int (2 * d)" by (rule mod_mult_self1)
    finally have "int (200 * c) mod int (2 * d) = int d mod int (2 * d)" .
    then have "int ((200 * c) mod (2 * d)) = int (d mod (2 * d))"
      by (simp only: zmod_int)
    then have "(200 * c) mod (2 * d) = d" using d by simp
    then show False using nt by simp
  qed
  then have "200 * int c - int d < 2 * (r * int d) \<and> 2 * (r * int d) \<le> 200 * int c + int d"
    using n by arith
  then have lo: "200 * int c - int d < 2 * (r * int d)" and hi: "2 * (r * int d) \<le> 200 * int c + int d"
    by simp_all
  define D where "D = (of_nat d :: rat)"
  define C where "C = (of_nat c :: rat)"
  have D: "0 < D" using d by (simp add: D_def)
  have "(of_int (200 * int c - int d) :: rat) < of_int (2 * (r * int d))"
    using lo by (simp only: of_int_less_iff)
  then have lo': "200 * C - D < 2 * (of_int r * D)" by (simp add: C_def D_def)
  have "(of_int (2 * (r * int d)) :: rat) \<le> of_int (200 * int c + int d)"
    using hi by (simp only: of_int_le_iff)
  then have hi': "2 * (of_int r * D) \<le> 200 * C + D" by (simp add: C_def D_def)
  have "round (100 * C / D) = r"
  proof (rule round_unique)
    show "100 * C / D - 1 / 2 < of_int r" using lo' D by (simp add: field_simps)
    show "of_int r \<le> 100 * C / D + 1 / 2" using hi' D by (simp add: field_simps)
  qed
  then show ?thesis by (simp add: r_def C_def D_def)
qed

lemma daysElapsed_pos: "0 < daysElapsed differenceInDays now h"
  by (simp add: daysElapsed_def)

lemma completedDays_le: "completedDays h cs \<le> length cs"
  by (simp add: completedDays_def)


text \<open>
  Claim C4, as amended. With \<open>daysElapsed = max(1, differenceInDays(now, createdAt) + 1)\<close>
  and \<open>completedDays\<close> the number of records of the habit in the whole log with
  \<open>completed = true\<close>, \<^verbatim>\<open>getCompletionRate\<close> returns an integer nearest to
  \<open>100 \<cdot> completedDays / daysElapsed\<close>. It is \<open>round\<close> of that quotient whenever the quotient
  is not half-way between two integers; half-way, the result is one of the two, since the
  quotient and the product are each rounded to a double before \<^verbatim>\<open>Math.round\<close> sees them. A
  habit created today (\<^verbatim>\<open>differenceInDays\<close> gives 0) has the rate \<open>100 \<cdot> completedDays\<close>: 0
  with no completion, 100 with one. A log is an array, of fewer than \<open>2\<^sup>3\<^sup>2\<close> records.
\<close>

theorem getCompletionRate_nearest:
  assumes "length cs < 2 ^ 32"
  shows "1 \<le> daysElapsed differenceInDays now h \<and>
     (0 \<le> differenceInDays now (createdAt h) \<longrightarrow>
        int (daysElapsed differenceInDays now h) = differenceInDays now (createdAt h) + 1) \<and>
     2 * \<bar>getCompletionRate differenceInDays now h cs * int (daysElapsed differenceInDays now h) -
          100 * int (completedDays h cs)\<bar> \<le> int (daysElapsed differenceInDays now h) \<and>
     ((200 * completedDays h cs) mod (2 * daysElapsed differenceInDays now h) \<noteq>
          daysElapsed differenceInDays now h \<longrightarrow>
        getCompletionRate differenceInDays now h cs = completionRate_spec differenceInDays now h cs) \<and>
     (differenceInDays now (createdAt h) = 0 \<longrightarrow>
        getCompletionRate differenceInDays now h cs = 100 * int (completedDays h cs))"
proof -
  define c where "c = completedDays h cs"
  define d where "d = daysElapsed differenceInDays now h"
  have c: "c < 2 ^ 32" using assms completedDays_le[of h cs] by (simp add: c_def)
  have d: "0 < d" using daysElapsed_pos by (simp add: d_def)
  have r: "getCompletionRate differenceInDays now h cs =
      Math_round (js_mul (js_div (js_num c) (js_num d)) (js_num 100))"
    by (simp add: getCompletionRate_def c_def d_def)
  have near: "2 * \<bar>getCompletionRate differenceInDays now h cs * int d - 100 * int c\<bar> \<le> int d"
    unfolding r using c d by (rule rate_nearest)
  have spec: "getCompletionRate differenceInDays now h cs =
      completionRate_spec differenceInDays now h cs" if "(200 * c) mod (2 * d) \<noteq> d"
    unfolding r completionRate_spec_def c_def[symmetric] d_def[symmetric]
    using c d that by (rule rate_round)
  have today: "getCompletionRate differenceInDays now h cs = 100 * int c"
    if "differenceInDays now (createdAt h) = 0"
  proof -
    have d1: "d = 1" using that by (simp add: d_def daysElapsed_def)
    then have "2 * \<bar>getCompletionRate differenceInDays now h cs - 100 * int c\<bar> \<le> 1"
      using near by simp
    then show ?thesis by arith
  qed
  have el: "int d = differenceInDays now (createdAt h) + 1"
    if "0 \<le> differenceInDays now (createdAt h)"
    using that by (simp add: d_def daysElapsed_def)
  show ?thesis using d near spec today el unfolding c_def d_def by auto
qed

theorem getCompletionRate_nearest_witness:
  "length five_days < 2 ^ 32 \<and>
   getCompletionRate fullDays 2505600000 run five_days = 17 \<and>
   completionRate_spec fullDays 2505600000 run five_days = 17 \<and>
   getCompletionRate fullDays 0 run [] = 0 \<and>
   getCompletionRate fullDays 0 run [entry (hid run) 0 True] = 100"
proof -
  have l: "length five_days < 2 ^ 32" "length ([] :: completion list) < 2 ^ 32"
    "length [entry (hid run) 0 True] < 2 ^ 32"
    by (simp_all add: five_days_def)
  have c5: "completedDays run five_days = 5"
    by (simp add: completedDays_def five_days_def entry_def run_def)
  have d30: "daysElapsed fullDays 2505600000 run = 30"
    by (simp add: daysElapsed_def fullDays_def run_def)
  have t0: "fullDays 0 (createdAt run) = 0" by (simp add: fullDays_def run_def)
  have c0: "completedDays run [] = 0" by (simp add: completedDays_def)
  have c1: "completedDays run [entry (hid run) 0 True] = 1"
    by (simp add: completedDays_def entry_def)
  note five = getCompletionRate_nearest[OF l(1), of fullDays 2505600000 run]
  have "2 * \<bar>getCompletionRate fullDays 2505600000 run five_days * 30 - 500\<bar> \<le> 30"
    using five[THEN conjunct2, THEN conjunct2, THEN conjunct1] by (simp add: c5 d30)
  then have a: "getCompletionRate fullDays 2505600000 run five_days = 17" by arith
  have nt: "(200 * completedDays run five_days) mod (2 * daysElapsed fullDays 2505600000 run) \<noteq>
      daysElapsed fullDays 2505600000 run"
    by (simp add: c5 d30)
  have b: "completionRate_spec fullDays 2505600000 run five_days = 17"
    using five[THEN conjunct2, THEN conjunct2, THEN conjunct2, THEN conjunct1, THEN mp, OF nt] a
    by simp
  have z: "getCompletionRate fullDays 0 run [] = 0"
    using getCompletionRate_nearest[OF l(2), of fullDays 0 run] t0 c0 by simp
  have o: "getCompletionRate fullDays 0 run [entry (hid run) 0 True] = 100"
    using getCompletionRate_nearest[OF l(3), of fullDays 0 run] t0 c1 by simp
  show ?thesis using l(1) a b z o by blast
qed

text \<open>
  The claim as it stands fails for a habit 40 days old with 23 completed days: the exact
  quotient is 57.5 and rounds to 58, while \<open>23 / 40\<close> as a double is just below 0.575, the
  product just below 57.5, and the program shows 57.
\<close>

theorem getCompletionRate_tie_counterexample:
  "getCompletionRate fullDays 3369600000 run (days_done 23) = 57 \<and>
   completionRate_spec fullDays 3369600000 run (days_done 23) = 58"
proof -
  have c: "completedDays run (days_done 23) = 23"
    by (simp add: completedDays_def days_done_def entry_def filter_map o_def)
  have d: "daysElapsed fullDays 3369600000 run = 40"
    by (simp add: daysElapsed_def fullDays_def run_def)
  have "Math_round (js_mul (js_div (js_num 23) (js_num 40)) (js_num 100)) = 57"
    by (simp add: js_mul_def js_div_def js_num_def round53_def compute_floorlog
        scaled_num_def scaled_den_def rne_def Math_round_def Let_def)
  then have a: "getCompletionRate fullDays 3369600000 run (days_done 23) = 57"
    by (simp add: getCompletionRate_def c d)
  have "round (100 * 23 / 40 :: rat) = 58"
    by (rule round_unique) simp_all
  then have b: "completionRate_spec fullDays 3369600000 run (days_done 23) = 58"
    by (simp add: completionRate_spec_def c d)
  show ?thesis using a b by blast
qed

end
